theory Spec2Isabelle
  imports Main "HOL-Library.Word" "HOL-Library.Multiset"
begin

unbundle bit_operations_syntax

section \<open>JavaScript strings\<close>

text \<open>
  A JavaScript string is a sequence of UTF-16 code units; \<open>charCodeAt\<close> reads one of
  them as a number below 65536. The blog's articles are Chinese, so code units above 255
  are the normal case. String literals of the source are written with \<open>js\<close>.
\<close>

type_synonym jschar = "16 word"
type_synonym jsstring = "jschar list"

definition js :: "string \<Rightarrow> jsstring" where
  "js s = map (\<lambda>c. of_char c) s"

text \<open>\<open>WhiteSpace\<close> and \<open>LineTerminator\<close> of ECMAScript: what \<open>trim\<close> strips.\<close>

definition is_space :: "jschar \<Rightarrow> bool" where
  "is_space c \<longleftrightarrow>
     c = 0x09 \<or> c = 0x0A \<or> c = 0x0B \<or> c = 0x0C \<or> c = 0x0D \<or> c = 0x20 \<or> c = 0xA0 \<or>
     c = 0x1680 \<or> (0x2000 \<le> c \<and> c \<le> 0x200A) \<or> c = 0x2028 \<or> c = 0x2029 \<or>
     c = 0x202F \<or> c = 0x205F \<or> c = 0x3000 \<or> c = 0xFEFF"

definition trim :: "jsstring \<Rightarrow> jsstring" where
  "trim s = rev (dropWhile is_space (rev (dropWhile is_space s)))"

definition startsWith :: "jsstring \<Rightarrow> jsstring \<Rightarrow> bool" where
  "startsWith s p \<longleftrightarrow> take (length p) s = p"

definition endsWith :: "jsstring \<Rightarrow> jsstring \<Rightarrow> bool" where
  "endsWith s p \<longleftrightarrow> length p \<le> length s \<and> drop (length s - length p) s = p"

text \<open>\<open>s.split(sep)\<close> for a separator of one code unit: the empty string gives \<open>[""]\<close>.\<close>

fun split_on :: "jschar \<Rightarrow> jsstring \<Rightarrow> jsstring list" where
  "split_on sep [] = [[]]"
| "split_on sep (c # cs) =
     (if c = sep then [] # split_on sep cs
      else (case split_on sep cs of [] \<Rightarrow> [[c]] | w # ws \<Rightarrow> (c # w) # ws))"

text \<open>\<open>xs.join(sep)\<close> on an array of strings.\<close>

fun join :: "jsstring \<Rightarrow> jsstring list \<Rightarrow> jsstring" where
  "join sep [] = []"
| "join sep [x] = x"
| "join sep (x # y # ys) = x @ sep @ join sep (y # ys)"

section \<open>hashContent\<close>

text \<open>
  \<^verbatim>\<open>hash = (hash << 5) - hash + char; hash = hash & hash;\<close>
  \<open><<\<close> works on the 32-bit value and gives a signed 32-bit number; the subtraction and
  the addition are exact on numbers of this size; \<open>hash & hash\<close> brings the sum back to a
  signed 32-bit number. \<open>Math.abs\<close> is taken on the number, so the most negative value
  gives 2147483648. \<open>toString(36)\<close> writes the digits \<open>0-9a-z\<close>.
\<close>

definition hash_step :: "32 word \<Rightarrow> jschar \<Rightarrow> 32 word" where
  "hash_step h c = word_of_int (sint (push_bit 5 h) - sint h + uint c)"

definition digit36 :: "nat \<Rightarrow> jschar" where
  "digit36 d = (if d < 10 then of_nat (48 + d) else of_nat (87 + d))"

fun toString36 :: "nat \<Rightarrow> jsstring" where
  "toString36 n =
     (if n < 36 then [digit36 n] else toString36 (n div 36) @ [digit36 (n mod 36)])"

declare toString36.simps [simp del]

definition hashContent :: "jsstring \<Rightarrow> jsstring" where
  "hashContent content = toString36 (nat \<bar>sint (foldl hash_step 0 content)\<bar>)"

section \<open>Key rotation\<close>

text \<open>
  \<open>class KeyManager\<close> of \<open>scripts/translate.mjs\<close>. \<open>keys[index]\<close> is \<open>undefined\<close>
  (\<open>None\<close>) out of range, and \<open>(index + 1) % 0\<close> is \<open>NaN\<close>, which the model writes as
  the index \<open>None\<close>: from then on every read is \<open>undefined\<close>. Counters are natural
  numbers: JavaScript numbers are exact on the integers a run can reach.
\<close>

record KeyManager =
  keys :: "jsstring list"
  index :: "nat option"

definition new_KeyManager :: "jsstring list \<Rightarrow> KeyManager" where
  "new_KeyManager ks = \<lparr>keys = ks, index = Some 0\<rparr>"

definition getNextKey :: "KeyManager \<Rightarrow> jsstring option \<times> KeyManager" where
  "getNextKey km =
     (case index km of
        None \<Rightarrow> (None, km)
      | Some i \<Rightarrow>
          (if i < length (keys km) then Some (keys km ! i) else None,
           km\<lparr>index := (if length (keys km) = 0 then None
                          else Some ((i + 1) mod length (keys km)))\<rparr>))"

text \<open>The results of \<open>n\<close> consecutive calls of \<open>getNextKey\<close>, in call order.\<close>

fun getNextKey_calls :: "nat \<Rightarrow> KeyManager \<Rightarrow> jsstring option list \<times> KeyManager" where
  "getNextKey_calls 0 km = ([], km)"
| "getNextKey_calls (Suc n) km =
     (case getNextKey km of (k, km') \<Rightarrow>
        (case getNextKey_calls n km' of (ks, km'') \<Rightarrow> (k # ks, km'')))"

text \<open>
  \<^verbatim>\<open>apiKeyStr.split(",").map(k => k.trim()).filter(k => k.length > 0)\<close>, as in
  \<open>getNextApiKey\<close> of \<open>src/utils/translate.ts\<close> and in \<open>main\<close> of the script.
\<close>

definition split_keys :: "jsstring \<Rightarrow> jsstring list" where
  "split_keys apiKeyStr = filter (\<lambda>k. length k > 0) (map trim (split_on 0x2C apiKeyStr))"

text \<open>
  \<open>getNextApiKey\<close> with the module variable \<open>keyIndex\<close> passed in and out. The counter
  moves only when a key is returned.
\<close>

definition getNextApiKey :: "jsstring \<Rightarrow> nat \<Rightarrow> jsstring \<times> nat" where
  "getNextApiKey apiKeyStr keyIndex =
     (let ks = split_keys apiKeyStr in
      if length ks = 0 then ([], keyIndex)
      else (ks ! (keyIndex mod length ks), keyIndex + 1))"

fun getNextApiKey_calls :: "nat \<Rightarrow> jsstring \<Rightarrow> nat \<Rightarrow> jsstring list \<times> nat" where
  "getNextApiKey_calls 0 s keyIndex = ([], keyIndex)"
| "getNextApiKey_calls (Suc n) s keyIndex =
     (case getNextApiKey s keyIndex of (k, keyIndex') \<Rightarrow>
        (case getNextApiKey_calls n s keyIndex' of (ks, keyIndex'') \<Rightarrow> (k # ks, keyIndex'')))"

section \<open>The hash comment and its regular expression\<close>

text \<open>
  \<^verbatim>\<open>existing.match(/<!-- hash: (\w+) -->/)?.[1]\<close>: the first group of the leftmost match,
  \<open>None\<close> for \<open>undefined\<close>. Without the \<open>u\<close> flag \<open>\w\<close> is \<open>[A-Za-z0-9_]\<close>. At a given start the
  greedy \<open>\w+\<close> can only end at the end of the run of word characters: a shorter match
  would have to be followed by a space, and the next code unit is a word character.
\<close>

definition is_base36 :: "jschar \<Rightarrow> bool" where
  "is_base36 c \<longleftrightarrow> (0x30 \<le> c \<and> c \<le> 0x39) \<or> (0x61 \<le> c \<and> c \<le> 0x7A)"

definition is_word_char :: "jschar \<Rightarrow> bool" where
  "is_word_char c \<longleftrightarrow>
     (0x30 \<le> c \<and> c \<le> 0x39) \<or> (0x41 \<le> c \<and> c \<le> 0x5A) \<or> c = 0x5F \<or> (0x61 \<le> c \<and> c \<le> 0x7A)"

definition hash_comment :: "jsstring \<Rightarrow> jsstring" where
  "hash_comment h = js ''<!-- hash: '' @ h @ js '' -->''"

definition match_hash_at :: "jsstring \<Rightarrow> jsstring option" where
  "match_hash_at s =
     (if startsWith s (js ''<!-- hash: '') then
        (let r = drop 11 s; w = takeWhile is_word_char r; t = dropWhile is_word_char r
         in if w \<noteq> [] \<and> startsWith t (js '' -->'') then Some w else None)
      else None)"

fun match_hash :: "jsstring \<Rightarrow> jsstring option" where
  "match_hash [] = None"
| "match_hash (c # cs) =
     (case match_hash_at (c # cs) of Some w \<Rightarrow> Some w | None \<Rightarrow> match_hash cs)"

section \<open>JavaScript values and objects\<close>

text \<open>
  The values that frontmatter fields and JSON payloads take here. Numbers are the
  integers; an object is the list of its own properties in insertion order, read with
  \<open>get\<close> (\<open>undefined\<close> for a missing property) and written with \<open>put\<close>, which keeps the
  position of a property that exists and appends a new one, as property assignment and
  object spread do.
\<close>

datatype jsval =
    JUndefined
  | JNull
  | JBool bool
  | JNum int
  | JStr jsstring
  | JArr "jsval list"

type_synonym jsobject = "(jsstring \<times> jsval) list"

fun truthy :: "jsval \<Rightarrow> bool" where
  "truthy JUndefined = False"
| "truthy JNull = False"
| "truthy (JBool b) = b"
| "truthy (JNum n) = (n \<noteq> 0)"
| "truthy (JStr s) = (s \<noteq> [])"
| "truthy (JArr xs) = True"

text \<open>\<open>a || b\<close>\<close>

definition js_or :: "jsval \<Rightarrow> jsval \<Rightarrow> jsval" where
  "js_or a b = (if truthy a then a else b)"

definition get :: "jsobject \<Rightarrow> jsstring \<Rightarrow> jsval" where
  "get obj k = (case map_of obj k of None \<Rightarrow> JUndefined | Some v \<Rightarrow> v)"

fun put :: "jsstring \<Rightarrow> jsval \<Rightarrow> jsobject \<Rightarrow> jsobject" where
  "put k v [] = [(k, v)]"
| "put k v (p # ps) = (if fst p = k then (k, v) # ps else p # put k v ps)"

text \<open>An optional string parameter: \<open>undefined\<close> when it is not passed.\<close>

fun optional :: "jsstring option \<Rightarrow> jsval" where
  "optional None = JUndefined"
| "optional (Some s) = JStr s"

section \<open>translateFrontmatter\<close>

text \<open>
  \<^verbatim>\<open>return { ...frontmatter, title: translatedTitle || frontmatter.title,
           description: translatedDescription || frontmatter.description };\<close>
  The three copies of \<open>src/utils/translate.ts\<close> have the same function.
\<close>

definition translateFrontmatter :: "jsobject \<Rightarrow> jsstring option \<Rightarrow> jsstring option \<Rightarrow> jsobject" where
  "translateFrontmatter frontmatter translatedTitle translatedDescription =
     put (js ''description'')
         (js_or (optional translatedDescription) (get frontmatter (js ''description'')))
         (put (js ''title'')
              (js_or (optional translatedTitle) (get frontmatter (js ''title'')))
              frontmatter)"

section \<open>The translation service and the POST handler\<close>

text \<open>
  What \<open>fetch\<close> and \<open>response.json()\<close> can give. \<open>fetch\<close> rejects (\<open>FetchThrows\<close>) or
  resolves with a status, a status text and a body; the body is either not a JSON object
  (\<open>BadJson\<close>: \<open>json()\<close> rejects, or reading a property of \<open>null\<close> throws) or an object,
  given by its properties \<open>code\<close>, \<open>message\<close> and \<open>data\<close> in this order. \<open>response.ok\<close> is a status
  from 200 to 299.
\<close>

datatype js_error = TypeError | RangeError | SyntaxError | FsError | ParseError

datatype http_body = BadJson | Json jsval jsval jsval

datatype fetch_result = FetchThrows | Response nat jsstring http_body

definition ok :: "nat \<Rightarrow> bool" where
  "ok status \<longleftrightarrow> 200 \<le> status \<and> status \<le> 299"


datatype response_body = Error jsval | TranslatedText jsval

record http_response =
  status :: nat
  body :: response_body





section \<open>The script: effects\<close>

text \<open>
  What a run does to the outside is kept as a trace: every \<open>fetch\<close> with the key of its
  URL (\<open>None\<close> for the text \<open>undefined\<close>) and the text sent, every \<open>setTimeout\<close> wait
  with its milliseconds, and the console lines. The translation service is a function
  \<open>net\<close> from the number of requests made before, the key and the text to what the
  request gives, so that the same text can be answered differently each time.
\<close>

datatype translate_error =
    Api_key_required
  | No_valid_key
  | Api_request_failed nat
  | No_translation_content
  | Thrown

datatype log_msg =
    DeepLX_status nat nat
  | DeepLX_message jsval
  | Translation_error
  | Source_not_found jsstring
  | Skip_cached jsstring
  | Translating jsstring
  | Done jsstring
  | Failed_to_process jsstring
  | Failed_to_translate jsstring translate_error
  | Error_translating jsstring

datatype event =
    Fetch "jsstring option" jsval
  | Sleep nat
  | Console_error log_msg
  | Console_log log_msg

type_synonym network = "nat \<Rightarrow> jsstring option \<Rightarrow> jsval \<Rightarrow> fetch_result"

fun is_Fetch :: "event \<Rightarrow> bool" where
  "is_Fetch (Fetch k t) = True"
| "is_Fetch _ = False"

definition nfetch :: "event list \<Rightarrow> nat" where
  "nfetch tr = length (filter is_Fetch tr)"

text \<open>Directories: the entries of a directory in \<open>readdir\<close> order, by the directory's path.\<close>

datatype entry = File jsstring | Directory

type_synonym filesystem = "jsstring \<Rightarrow> (jsstring \<times> entry) list option"

record script_world =
  keyManager :: KeyManager
  trace :: "event list"
  files :: filesystem

definition emit :: "event list \<Rightarrow> script_world \<Rightarrow> script_world" where
  "emit evs w = w\<lparr>trace := trace w @ evs\<rparr>"

section \<open>The script: translateText\<close>

text \<open>
  The \<open>for\<close> loop of \<open>translateText\<close>, from attempt \<open>i\<close>. The three failure branches log,
  wait \<open>delay\<close> milliseconds and go on with the next attempt; an exception of \<open>fetch\<close> or
  of \<open>response.json()\<close> is caught inside the loop. \<open>delay\<close> is 500 in
  \<open>scripts/translate.mjs\<close> and 1000 in the sequential script (\<open>src/unnamed/part_000\<close>).
\<close>

function translateText_loop ::
  "network \<Rightarrow> nat \<Rightarrow> jsstring \<Rightarrow> nat \<Rightarrow> nat \<Rightarrow> script_world \<Rightarrow> jsval \<times> script_world" where
  "translateText_loop net delay txt retries i w =
     (if i < retries then
        (case getNextKey (keyManager w) of (apiKey, km') \<Rightarrow>
           (let w1 = emit [Fetch apiKey (JStr txt)] (w\<lparr>keyManager := km'\<rparr>) in
            case net (nfetch (trace w)) apiKey (JStr txt) of
              FetchThrows \<Rightarrow>
                translateText_loop net delay txt retries (i + 1)
                  (emit [Console_error Translation_error, Sleep delay] w1)
            | Response st statusText b \<Rightarrow>
                if \<not> ok st then
                  translateText_loop net delay txt retries (i + 1)
                    (emit [Console_error (DeepLX_status (i + 1) st), Sleep delay] w1)
                else
                  (case b of
                     BadJson \<Rightarrow>
                       translateText_loop net delay txt retries (i + 1)
                         (emit [Console_error Translation_error, Sleep delay] w1)
                   | Json c m d \<Rightarrow>
                       if c \<noteq> JNum 200 then
                         translateText_loop net delay txt retries (i + 1)
                           (emit [Console_error (DeepLX_message (js_or m (JStr (js ''Unknown error'')))),
                                  Sleep delay] w1)
                       else (d, w1))))
      else (JNull, w))"
  by pat_completeness auto
termination
  by (relation "measure (\<lambda>(net, delay, txt, retries, i, w). retries - i)") auto

declare translateText_loop.simps [simp del]

definition translateText_with ::
  "nat \<Rightarrow> network \<Rightarrow> jsstring \<Rightarrow> nat \<Rightarrow> script_world \<Rightarrow> jsval \<times> script_world" where
  "translateText_with delay net txt retries w =
     (if txt = [] \<or> length (trim txt) = 0 then (JStr txt, w)
      else translateText_loop net delay txt retries 0 w)"

text \<open>Every call of the scripts leaves \<open>retries\<close> at its default 3.\<close>

definition translateText :: "network \<Rightarrow> jsstring \<Rightarrow> script_world \<Rightarrow> jsval \<times> script_world" where
  "translateText net txt w = translateText_with 500 net txt 3 w"


section \<open>The script: translateBatch\<close>

definition CONCURRENCY :: nat where
  "CONCURRENCY = 5"

definition DELAY_MS :: nat where
  "DELAY_MS = 100"

text \<open>The paragraphs that are not sent: blank, code fence, indented code, HTML.\<close>

definition skip_text :: "jsstring \<Rightarrow> bool" where
  "skip_text txt \<longleftrightarrow>
     trim txt = [] \<or> startsWith txt (js ''```'') \<or> startsWith txt (js ''    '') \<or>
     startsWith txt (js ''<'')"

text \<open>One callback of \<open>batch.map\<close>: the pair of the index and the result.\<close>

definition translate_item ::
  "network \<Rightarrow> nat \<Rightarrow> jsstring \<Rightarrow> script_world \<Rightarrow> (nat \<times> jsval) \<times> script_world" where
  "translate_item net idx txt w =
     (if skip_text txt then ((idx, JStr txt), w)
      else (case translateText net txt w of
              (translated, w') \<Rightarrow> ((idx, js_or translated (JStr txt)), w')))"

text \<open>
  \<open>batch.map(async ...)\<close> and \<open>Promise.all\<close>: the results come in the order of the batch.
  The model runs the callbacks of a batch one after the other, each to its end; how the
  requests of a batch interleave in a real run is not modelled.
\<close>

fun run_batch ::
  "network \<Rightarrow> nat \<Rightarrow> nat \<Rightarrow> jsstring list \<Rightarrow> script_world \<Rightarrow> (nat \<times> jsval) list \<times> script_world" where
  "run_batch net i idx [] w = ([], w)"
| "run_batch net i idx (txt # rest) w =
     (case translate_item net (i + idx) txt w of
        (r, w1) \<Rightarrow> (case run_batch net i (Suc idx) rest w1 of
                      (rs, w2) \<Rightarrow> (r # rs, w2)))"

text \<open>\<open>xs.slice(a, b)\<close> for \<open>0 \<le> a \<le> b\<close>\<close>

definition slice :: "'a list \<Rightarrow> nat \<Rightarrow> nat \<Rightarrow> 'a list" where
  "slice xs a b = take (b - a) (drop a xs)"

function translateBatch_loop ::
  "network \<Rightarrow> jsstring list \<Rightarrow> nat \<Rightarrow> (nat \<times> jsval) list \<Rightarrow> script_world
     \<Rightarrow> (nat \<times> jsval) list \<times> script_world" where
  "translateBatch_loop net texts i results w =
     (if i < length texts then
        (let batch = slice texts i (i + CONCURRENCY) in
         case run_batch net i 0 batch w of
           (batchResults, w1) \<Rightarrow>
             translateBatch_loop net texts (i + CONCURRENCY) (results @ batchResults)
               (if i + CONCURRENCY < length texts then emit [Sleep DELAY_MS] w1 else w1))
      else (results, w))"
  by pat_completeness auto
termination
  by (relation "measure (\<lambda>(net, texts, i, results, w). length texts - i)")
     (auto simp: CONCURRENCY_def)

declare translateBatch_loop.simps [simp del]

text \<open>
  \<open>results.sort((a, b) => a.index - b.index)\<close> is a stable sort on the index;
  \<open>results.map(r => r.result)\<close> follows.
\<close>

definition translateBatch ::
  "network \<Rightarrow> jsstring list \<Rightarrow> script_world \<Rightarrow> jsval list \<times> script_world" where
  "translateBatch net texts w =
     (case translateBatch_loop net texts 0 [] w of
        (results, w') \<Rightarrow> (map snd (sort_key fst results), w'))"

section \<open>The sequential script: the paragraph loop\<close>


section \<open>The script: what the claims about translateText speak of\<close>

text \<open>
  An attempt succeeds when the response is ok and the payload's code is 200; the result
  is then the payload's \<open>data\<close>. \<open>fetch_keys\<close> and \<open>fetch_texts\<close> read the requests of a
  trace; \<open>attempt_response\<close> is what the next request of a world gets and \<open>after_fetch\<close>
  the world once it is sent. \<open>down\<close> is a service that rejects every request.
\<close>

fun attempt_succeeds :: "fetch_result \<Rightarrow> bool" where
  "attempt_succeeds (Response st sx (Json c m d)) = (ok st \<and> c = JNum 200)"
| "attempt_succeeds _ = False"

fun payload_data :: "fetch_result \<Rightarrow> jsval" where
  "payload_data (Response st sx (Json c m d)) = d"
| "payload_data _ = JUndefined"

fun fetch_keys :: "event list \<Rightarrow> jsstring option list" where
  "fetch_keys [] = []"
| "fetch_keys (Fetch k t # es) = k # fetch_keys es"
| "fetch_keys (e # es) = fetch_keys es"

fun fetch_texts :: "event list \<Rightarrow> jsval list" where
  "fetch_texts [] = []"
| "fetch_texts (Fetch k t # es) = t # fetch_texts es"
| "fetch_texts (e # es) = fetch_texts es"

definition after_fetch :: "jsstring \<Rightarrow> script_world \<Rightarrow> script_world" where
  "after_fetch txt w =
     emit [Fetch (fst (getNextKey (keyManager w))) (JStr txt)]
          (w\<lparr>keyManager := snd (getNextKey (keyManager w))\<rparr>)"

definition attempt_response :: "network \<Rightarrow> jsstring \<Rightarrow> script_world \<Rightarrow> fetch_result" where
  "attempt_response net txt w = net (nfetch (trace w)) (fst (getNextKey (keyManager w))) (JStr txt)"

definition down :: network where
  "down n k t = FetchThrows"

definition one_key_world :: script_world where
  "one_key_world = \<lparr>keyManager = new_KeyManager [js ''k1''], trace = [], files = (\<lambda>d. None)\<rparr>"

section \<open>The script: what the claims about translateBatch speak of\<close>

text \<open>
  \<open>new_events w w'\<close> are the events of a run from \<open>w\<close> to \<open>w'\<close>. An event of the attempts
  for a text is a request with that text, a console error or the wait of the retry; an
  event of a batch is such an event for a text of the batch that is not skipped. A result
  for a text is the text itself or the \<open>data\<close> of a successful response to a request
  with it.
\<close>

definition new_events :: "script_world \<Rightarrow> script_world \<Rightarrow> event list" where
  "new_events w w' = drop (length (trace w)) (trace w')"

definition attempt_event :: "nat \<Rightarrow> jsstring \<Rightarrow> event \<Rightarrow> bool" where
  "attempt_event delay txt e \<longleftrightarrow>
     (\<exists>k. e = Fetch k (JStr txt)) \<or> (\<exists>m. e = Console_error m) \<or> e = Sleep delay"

definition item_result :: "network \<Rightarrow> jsstring \<Rightarrow> jsval \<Rightarrow> bool" where
  "item_result net txt r \<longleftrightarrow>
     r = JStr txt \<or>
     (\<exists>n k. attempt_succeeds (net n k (JStr txt)) \<and> r = payload_data (net n k (JStr txt)))"

definition batch_event :: "jsstring list \<Rightarrow> event \<Rightarrow> bool" where
  "batch_event texts e \<longleftrightarrow> (\<exists>t \<in> set texts. \<not> skip_text t \<and> attempt_event 500 t e)"

section \<open>translateBatch, as the claim words it\<close>





section \<open>The sequential script: what the claims speak of\<close>



definition answers_X :: network where
  "answers_X n k t = Response 200 (js ''OK'') (Json (JNum 200) JUndefined (JStr (js ''X'')))"

section \<open>Files, gray-matter and text helpers\<close>

text \<open>
  The file operations of \<open>node:fs/promises\<close> on the two directories a run touches. A
  path is a directory and a name in it. \<open>readFile\<close> rejects for a missing file and for a
  directory, \<open>writeFile\<close> for a missing directory and for a name that is a directory;
  \<open>mkdir\<close> with \<open>recursive\<close> creates the directory when it is missing.
\<close>

definition readdir :: "filesystem \<Rightarrow> jsstring \<Rightarrow> js_error + jsstring list" where
  "readdir fs d = (case fs d of None \<Rightarrow> Inl FsError | Some es \<Rightarrow> Inr (map fst es))"

definition stat_isDirectory :: "filesystem \<Rightarrow> jsstring \<Rightarrow> jsstring \<Rightarrow> js_error + bool" where
  "stat_isDirectory fs d f =
     (case fs d of
        None \<Rightarrow> Inl FsError
      | Some es \<Rightarrow> (case map_of es f of
                      None \<Rightarrow> Inl FsError
                    | Some e \<Rightarrow> Inr (e = Directory)))"

definition readFile :: "filesystem \<Rightarrow> jsstring \<Rightarrow> jsstring \<Rightarrow> js_error + jsstring" where
  "readFile fs d f =
     (case fs d of
        None \<Rightarrow> Inl FsError
      | Some es \<Rightarrow> (case map_of es f of
                      Some (File c) \<Rightarrow> Inr c
                    | _ \<Rightarrow> Inl FsError))"

fun put_entry :: "jsstring \<Rightarrow> entry \<Rightarrow> (jsstring \<times> entry) list \<Rightarrow> (jsstring \<times> entry) list" where
  "put_entry f e [] = [(f, e)]"
| "put_entry f e (p # ps) = (if fst p = f then (f, e) # ps else p # put_entry f e ps)"

definition writeFile :: "filesystem \<Rightarrow> jsstring \<Rightarrow> jsstring \<Rightarrow> jsstring \<Rightarrow> js_error + filesystem" where
  "writeFile fs d f c =
     (case fs d of
        None \<Rightarrow> Inl FsError
      | Some es \<Rightarrow> (case map_of es f of
                      Some Directory \<Rightarrow> Inl FsError
                    | _ \<Rightarrow> Inr (fs(d \<mapsto> put_entry f (File c) es))))"

definition mkdir :: "filesystem \<Rightarrow> jsstring \<Rightarrow> filesystem" where
  "mkdir fs d = (case fs d of None \<Rightarrow> fs(d \<mapsto> []) | Some es \<Rightarrow> fs)"

text \<open>
  The library gray-matter is not part of the repository: \<open>matter(content)\<close> and
  \<open>matter.stringify(content, data)\<close> are parameters of the model. Either can throw.
\<close>

record gray_matter =
  gm_parse :: "jsstring \<Rightarrow> js_error + (jsobject \<times> jsstring)"
  gm_stringify :: "jsstring \<Rightarrow> jsobject \<Rightarrow> js_error + jsstring"

text \<open>\<open>String(v)\<close>, as template literals and \<open>join\<close> apply it.\<close>

fun toString10 :: "nat \<Rightarrow> jsstring" where
  "toString10 n =
     (if n < 10 then [of_nat (48 + n)] else toString10 (n div 10) @ [of_nat (48 + n mod 10)])"

declare toString10.simps [simp del]

fun js_toString :: "jsval \<Rightarrow> jsstring" where
  "js_toString JUndefined = js ''undefined''"
| "js_toString JNull = js ''null''"
| "js_toString (JBool b) = (if b then js ''true'' else js ''false'')"
| "js_toString (JNum n) = (if n < 0 then js ''-'' @ toString10 (nat (- n)) else toString10 (nat n))"
| "js_toString (JStr s) = s"
| "js_toString (JArr xs) =
     join (js '','')
       (map (\<lambda>x. if x = JUndefined \<or> x = JNull then [] else js_toString x) xs)"

text \<open>\<open>xs.join(sep)\<close> on an array of values: \<open>null\<close> and \<open>undefined\<close> give the empty string.\<close>

definition join_values :: "jsstring \<Rightarrow> jsval list \<Rightarrow> jsstring" where
  "join_values sep xs =
     join sep (map (\<lambda>x. if x = JUndefined \<or> x = JNull then [] else js_toString x) xs)"

text \<open>
  \<open>body.split(/\n\n+/)\<close>: a separator is a maximal run of two or more line feeds; a single
  line feed stays in its paragraph.
\<close>

function split_paragraphs :: "jsstring \<Rightarrow> jsstring list" where
  "split_paragraphs [] = [[]]"
| "split_paragraphs (c # cs) =
     (if c = 0x0A \<and> startsWith cs [0x0A] then
        [] # split_paragraphs (dropWhile (\<lambda>x. x = 0x0A) cs)
      else (case split_paragraphs cs of
              [] \<Rightarrow> [[c]]
            | p # ps \<Rightarrow> (c # p) # ps))"
  by pat_completeness auto
termination
  by (relation "measure length") (auto simp: less_Suc_eq_le length_dropWhile_le)

text \<open>\<open>v.replace(/\n/g, " ").trim()\<close>: a \<open>TypeError\<close> on a value that is not a string.\<close>

definition one_line :: "jsval \<Rightarrow> js_error + jsval" where
  "one_line v =
     (case v of
        JStr s \<Rightarrow> Inr (JStr (trim (map (\<lambda>c. if c = 0x0A then 0x20 else c) s)))
      | _ \<Rightarrow> Inl TypeError)"

fun is_string :: "jsval \<Rightarrow> bool" where
  "is_string (JStr s) = True"
| "is_string _ = False"

fun is_array :: "jsval \<Rightarrow> bool" where
  "is_array (JArr xs) = True"
| "is_array _ = False"

text \<open>
  The first group of the hash comment in the file \<open>f\<close> of directory \<open>d\<close>: \<open>None\<close> when the
  file cannot be read (the \<open>catch\<close> around the read) and when nothing matches.
\<close>

definition existing_hash :: "filesystem \<Rightarrow> jsstring \<Rightarrow> jsstring \<Rightarrow> jsstring option" where
  "existing_hash fs d f =
     (case readFile fs d f of Inl e \<Rightarrow> None | Inr existing \<Rightarrow> match_hash existing)"

section \<open>The script: translateDirectory\<close>

text \<open>\<open>FILE_NAME_MAP\<close>; U+68A6 is the character of the two mapped names.\<close>

definition FILE_NAME_MAP :: "(jsstring \<times> jsstring) list" where
  "FILE_NAME_MAP =
     [([0x68A6] @ js ''.md'', js ''dream.md''),
      (js ''2025.07.29_'' @ [0x68A6] @ js ''.md'', js ''2025.07.29_dream.md'')]"

definition getOutputFileName :: "jsstring \<Rightarrow> jsstring" where
  "getOutputFileName inputFileName =
     (case map_of FILE_NAME_MAP inputFileName of None \<Rightarrow> inputFileName | Some v \<Rightarrow> v)"

definition is_markdown :: "jsstring \<Rightarrow> bool" where
  "is_markdown f \<longleftrightarrow> endsWith f (js ''.md'') \<or> endsWith f (js ''.mdx'')"

text \<open>An element of \<open>filesToTranslate\<close>; the two paths follow from the names.\<close>

record queued =
  q_file :: jsstring
  q_outputFileName :: jsstring
  q_content :: jsstring
  q_contentHash :: jsstring

text \<open>
  The body of the first loop, for one file. \<open>stat\<close> and the read of the source are not
  inside a \<open>try\<close>: their exception leaves the function. The read of the output is.
\<close>

definition collect_file ::
  "jsstring \<Rightarrow> jsstring \<Rightarrow> jsstring \<Rightarrow> queued list \<Rightarrow> script_world
     \<Rightarrow> (js_error + queued list) \<times> script_world" where
  "collect_file sourceDir outputDir file filesToTranslate w =
     (let outputFileName = getOutputFileName file in
      case stat_isDirectory (files w) sourceDir file of
        Inl e \<Rightarrow> (Inl e, w)
      | Inr isDir \<Rightarrow>
          if isDir then (Inr filesToTranslate, w)
          else
            (case readFile (files w) sourceDir file of
               Inl e \<Rightarrow> (Inl e, w)
             | Inr content \<Rightarrow>
                 (let contentHash = hashContent content in
                  if existing_hash (files w) outputDir outputFileName = Some contentHash
                  then (Inr filesToTranslate, emit [Console_log (Skip_cached file)] w)
                  else (Inr (filesToTranslate @
                             [\<lparr>q_file = file, q_outputFileName = outputFileName,
                               q_content = content, q_contentHash = contentHash\<rparr>]), w))))"

fun collect_files ::
  "jsstring \<Rightarrow> jsstring \<Rightarrow> jsstring list \<Rightarrow> queued list \<Rightarrow> script_world
     \<Rightarrow> (js_error + queued list) \<times> script_world" where
  "collect_files sourceDir outputDir [] filesToTranslate w = (Inr filesToTranslate, w)"
| "collect_files sourceDir outputDir (file # rest) filesToTranslate w =
     (case collect_file sourceDir outputDir file filesToTranslate w of
        (Inl e, w') \<Rightarrow> (Inl e, w')
      | (Inr filesToTranslate', w') \<Rightarrow> collect_files sourceDir outputDir rest filesToTranslate' w')"

text \<open>"Ensure required fields exist and have correct types"\<close>

definition ensure_fields :: "jsobject \<Rightarrow> jsobject" where
  "ensure_fields frontmatter =
     (let f1 = (if \<not> is_array (get frontmatter (js ''tags''))
                then put (js ''tags'') (JArr []) frontmatter else frontmatter);
          f2 = (if \<not> is_string (get f1 (js ''title''))
                then put (js ''title'') (JStr []) f1 else f1)
      in if \<not> is_string (get f2 (js ''description''))
         then put (js ''description'') (JStr []) f2 else f2)"

text \<open>
  \<^verbatim>\<open>frontmatter.title ? translateText(frontmatter.title, keyManager) : Promise.resolve(null)\<close>
  The field is a string when this runs; the last case is not reached.
\<close>

definition translate_field :: "network \<Rightarrow> jsval \<Rightarrow> script_world \<Rightarrow> jsval \<times> script_world" where
  "translate_field net v w =
     (case v of
        JStr s \<Rightarrow> if s \<noteq> [] then translateText net s w else (JNull, w)
      | _ \<Rightarrow> (JNull, w))"

text \<open>\<^verbatim>\<open>if (translatedTitle) frontmatter.title = translatedTitle.replace(/\n/g, " ").trim();\<close>\<close>

definition apply_translation :: "jsstring \<Rightarrow> jsval \<Rightarrow> jsobject \<Rightarrow> js_error + jsobject" where
  "apply_translation k translated frontmatter =
     (if truthy translated then
        (case one_line translated of
           Inl e \<Rightarrow> Inl e
         | Inr v \<Rightarrow> Inr (put k v frontmatter))
      else Inr frontmatter)"

definition final_content :: "jsstring \<Rightarrow> jsstring \<Rightarrow> jsstring" where
  "final_content contentHash translatedBody =
     hash_comment contentHash
       @ js ''\<newline>\<newline>> This article is machine-translated.\<newline>\<newline>''
       @ translatedBody"

text \<open>
  The \<open>try\<close> block for one queued file: the exception, if one is thrown, and the world
  at that point. The two translations of \<open>Promise.all\<close> run one after the other, the
  title first.
\<close>

definition process_file_try ::
  "network \<Rightarrow> gray_matter \<Rightarrow> jsstring \<Rightarrow> queued \<Rightarrow> script_world
     \<Rightarrow> js_error option \<times> script_world" where
  "process_file_try net gm outputDir it w =
     (case gm_parse gm (q_content it) of
        Inl e \<Rightarrow> (Some e, w)
      | Inr (parsed_data, mdBody) \<Rightarrow>
          (let frontmatter = ensure_fields parsed_data;
               paragraphs = split_paragraphs mdBody
           in case translateBatch net paragraphs w of
             (translatedParagraphs, w1) \<Rightarrow>
               (let translatedBody = join_values (js ''\<newline>\<newline>'') translatedParagraphs
                in case translate_field net (get frontmatter (js ''title'')) w1 of
                  (translatedTitle, w2) \<Rightarrow>
                    (case translate_field net (get frontmatter (js ''description'')) w2 of
                       (translatedDesc, w3) \<Rightarrow>
                         (case apply_translation (js ''title'') translatedTitle frontmatter of
                            Inl e \<Rightarrow> (Some e, w3)
                          | Inr f1 \<Rightarrow>
                              (case apply_translation (js ''description'') translatedDesc f1 of
                                 Inl e \<Rightarrow> (Some e, w3)
                               | Inr f2 \<Rightarrow>
                                   (case gm_stringify gm
                                           (final_content (q_contentHash it) translatedBody) f2 of
                                      Inl e \<Rightarrow> (Some e, w3)
                                    | Inr finalFile \<Rightarrow>
                                        (case writeFile (files w3) outputDir
                                                (q_outputFileName it) finalFile of
                                           Inl e \<Rightarrow> (Some e, w3)
                                         | Inr fs' \<Rightarrow>
                                             (None, emit [Console_log (Done (q_file it))]
                                                      (w3\<lparr>files := fs'\<rparr>))))))))))"

text \<open>The body of the second loop: the \<open>catch\<close> logs and the loop goes on.\<close>

definition process_file ::
  "network \<Rightarrow> gray_matter \<Rightarrow> jsstring \<Rightarrow> queued \<Rightarrow> script_world \<Rightarrow> script_world" where
  "process_file net gm outputDir it w =
     (case process_file_try net gm outputDir it (emit [Console_log (Translating (q_file it))] w) of
        (None, w') \<Rightarrow> w'
      | (Some e, w') \<Rightarrow> emit [Console_error (Failed_to_process (q_file it))] w')"

fun process_files ::
  "network \<Rightarrow> gray_matter \<Rightarrow> jsstring \<Rightarrow> queued list \<Rightarrow> script_world \<Rightarrow> script_world" where
  "process_files net gm outputDir [] w = w"
| "process_files net gm outputDir (it # rest) w =
     process_files net gm outputDir rest (process_file net gm outputDir it w)"

definition translateDirectory ::
  "network \<Rightarrow> gray_matter \<Rightarrow> jsstring \<Rightarrow> jsstring \<Rightarrow> script_world
     \<Rightarrow> js_error option \<times> script_world" where
  "translateDirectory net gm sourceDir outputDir w =
     (let w0 = w\<lparr>files := mkdir (files w) outputDir\<rparr> in
      case readdir (files w0) sourceDir of
        Inl e \<Rightarrow> (None, emit [Console_log (Source_not_found sourceDir)] w0)
      | Inr names \<Rightarrow>
          (case collect_files sourceDir outputDir (filter is_markdown names) [] w0 of
             (Inl e, w1) \<Rightarrow> (Some e, w1)
           | (Inr filesToTranslate, w1) \<Rightarrow>
               (None, process_files net gm outputDir filesToTranslate w1)))"

section \<open>The Astro integration\<close>

text \<open>
  \<open>src/integrations/astro-translate.ts\<close> with \<open>translateMarkdown\<close> of
  \<open>src/utils/translate.ts\<close> in its copy with key rotation (the one of \<open>getNextApiKey\<close>).
  The module variables \<open>keyIndex\<close> and \<open>translationCache\<close> are fields of the world.
\<close>

record ContentDir =
  cd_source :: jsstring
  cd_output :: jsstring
  cd_name :: jsstring

definition contentDirs :: "ContentDir list" where
  "contentDirs =
     [\<lparr>cd_source = js ''src/content/post'', cd_output = js ''src/content/post-en'',
       cd_name = js ''posts''\<rparr>,
      \<lparr>cd_source = js ''src/content/note'', cd_output = js ''src/content/note-en'',
       cd_name = js ''notes''\<rparr>]"

record astro_world =
  a_trace :: "event list"
  a_files :: filesystem
  keyIndex :: nat
  translationCache :: "jsstring \<rightharpoonup> jsstring"

definition a_emit :: "event list \<Rightarrow> astro_world \<Rightarrow> astro_world" where
  "a_emit evs w = w\<lparr>a_trace := a_trace w @ evs\<rparr>"

datatype translate_result = Success jsval | Failure translate_error

text \<open>
  \<open>translateText\<close> of the utility, which \<open>translateMarkdown\<close> passes to: its body after
  the key is a \<open>try\<close> whose \<open>catch\<close> returns a failure.
\<close>

definition translateMarkdown ::
  "network \<Rightarrow> jsval \<Rightarrow> jsstring \<Rightarrow> astro_world \<Rightarrow> translate_result \<times> astro_world" where
  "translateMarkdown net content apiKeyStr w =
     (if apiKeyStr = [] then (Failure Api_key_required, w)
      else
        (case getNextApiKey apiKeyStr (keyIndex w) of
           (apiKey, keyIndex') \<Rightarrow>
             (let w1 = w\<lparr>keyIndex := keyIndex'\<rparr> in
              if apiKey = [] then (Failure No_valid_key, w1)
              else
                (let w2 = a_emit [Fetch (Some apiKey) content] w1 in
                 case net (nfetch (a_trace w)) (Some apiKey) content of
                   FetchThrows \<Rightarrow> (Failure Thrown, w2)
                 | Response st statusText b \<Rightarrow>
                     if \<not> ok st then (Failure (Api_request_failed st), w2)
                     else
                       (case b of
                          BadJson \<Rightarrow> (Failure Thrown, w2)
                        | Json c m d \<Rightarrow>
                            if \<not> truthy d then (Failure No_translation_content, w2)
                            else (Success d, w2))))))"

text \<open>\<open>content?.trim()\<close> on a truthy content: a \<open>TypeError\<close> unless it is a string.\<close>

definition trim_value :: "jsval \<Rightarrow> js_error + jsval" where
  "trim_value v = (case v of JStr s \<Rightarrow> Inr (JStr (trim s)) | _ \<Rightarrow> Inl TypeError)"

text \<open>
  \<^verbatim>\<open>let translatedTitle = frontmatter.title;
  if (frontmatter.title) { const r = await translateMarkdown(...);
                           if (r.success) translatedTitle = r.content?.trim(); }\<close>
\<close>

definition translate_optional ::
  "network \<Rightarrow> jsstring \<Rightarrow> jsval \<Rightarrow> astro_world \<Rightarrow> (js_error + jsval) \<times> astro_world" where
  "translate_optional net apiKey v w =
     (if truthy v then
        (case translateMarkdown net v apiKey w of
           (Success c, w') \<Rightarrow> (trim_value c, w')
         | (Failure e, w') \<Rightarrow> (Inr v, w'))
      else (Inr v, w))"

text \<open>The copy of the frontmatter with the two fields set when defined, and no \<open>undefined\<close>.\<close>

definition translated_frontmatter :: "jsobject \<Rightarrow> jsval \<Rightarrow> jsval \<Rightarrow> jsobject" where
  "translated_frontmatter frontmatter translatedTitle translatedDescription =
     (let f1 = (if translatedTitle \<noteq> JUndefined
                then put (js ''title'') translatedTitle frontmatter else frontmatter);
          f2 = (if translatedDescription \<noteq> JUndefined
                then put (js ''description'') translatedDescription f1 else f1)
      in filter (\<lambda>p. snd p \<noteq> JUndefined) f2)"

definition astro_content :: "jsstring \<Rightarrow> jsval \<Rightarrow> jsstring" where
  "astro_content contentHash content =
     hash_comment contentHash
       @ js ''\<newline>\<newline>> This article is machine-translated and may contain errors. Please refer to the original Chinese version if anything is unclear.\<newline>\<newline>''
       @ js_toString content"

text \<open>
  The loop body from the parse of the frontmatter on: \<open>True\<close> when the file is
  translated and written, \<open>False\<close> after \<open>continue\<close> on a failed translation.
\<close>

definition astro_translate ::
  "network \<Rightarrow> gray_matter \<Rightarrow> ContentDir \<Rightarrow> jsstring \<Rightarrow> jsstring \<Rightarrow> jsstring \<Rightarrow> jsstring
     \<Rightarrow> astro_world \<Rightarrow> (js_error + bool) \<times> astro_world" where
  "astro_translate net gm dir apiKey file content contentHash w =
     (case gm_parse gm content of
        Inl e \<Rightarrow> (Inl e, w)
      | Inr (frontmatter, markdownContent) \<Rightarrow>
          (case translateMarkdown net (JStr markdownContent) apiKey
                  (a_emit [Console_log (Translating file)] w) of
             (Failure err, w2) \<Rightarrow>
               (Inr False, a_emit [Console_error (Failed_to_translate file err)] w2)
           | (Success translated, w2) \<Rightarrow>
               (case translate_optional net apiKey (get frontmatter (js ''title'')) w2 of
                  (Inl e, w3) \<Rightarrow> (Inl e, w3)
                | (Inr translatedTitle, w3) \<Rightarrow>
                    (case translate_optional net apiKey (get frontmatter (js ''description'')) w3 of
                       (Inl e, w4) \<Rightarrow> (Inl e, w4)
                     | (Inr translatedDescription, w4) \<Rightarrow>
                         (case gm_stringify gm (astro_content contentHash translated)
                                 (translated_frontmatter frontmatter translatedTitle
                                    translatedDescription) of
                            Inl e \<Rightarrow> (Inl e, w4)
                          | Inr translatedContent \<Rightarrow>
                              (case writeFile (a_files w4) (cd_output dir) file translatedContent of
                                 Inl e \<Rightarrow> (Inl e, w4)
                               | Inr fs' \<Rightarrow>
                                   (Inr True,
                                    a_emit [Sleep 1000]
                                      (w4\<lparr>a_files := fs',
                                          translationCache :=
                                            (translationCache w4)(contentHash \<mapsto> translatedContent)\<rparr>))))))))"

text \<open>The loop body for one file, on the counters \<open>(translated, skipped)\<close>.\<close>

definition astro_file ::
  "network \<Rightarrow> gray_matter \<Rightarrow> ContentDir \<Rightarrow> jsstring \<Rightarrow> jsstring \<Rightarrow> nat \<times> nat
     \<Rightarrow> astro_world \<Rightarrow> (js_error + nat \<times> nat) \<times> astro_world" where
  "astro_file net gm dir apiKey file counters w =
     (case stat_isDirectory (a_files w) (cd_source dir) file of
        Inl e \<Rightarrow> (Inl e, w)
      | Inr isDir \<Rightarrow>
          if isDir then (Inr counters, w)
          else
            (case readFile (a_files w) (cd_source dir) file of
               Inl e \<Rightarrow> (Inl e, w)
             | Inr content \<Rightarrow>
                 (let contentHash = hashContent content in
                  case translationCache w contentHash of
                    Some cached \<Rightarrow>
                      (case writeFile (a_files w) (cd_output dir) file cached of
                         Inl e \<Rightarrow> (Inl e, w)
                       | Inr fs' \<Rightarrow> (Inr (fst counters, snd counters + 1), w\<lparr>a_files := fs'\<rparr>))
                  | None \<Rightarrow>
                      if existing_hash (a_files w) (cd_output dir) file = Some contentHash
                      then (Inr (fst counters, snd counters + 1), w)
                      else
                        (case astro_translate net gm dir apiKey file content contentHash w of
                           (Inl e, w') \<Rightarrow> (Inl e, w')
                         | (Inr done, w') \<Rightarrow>
                             (Inr (if done then (fst counters + 1, snd counters) else counters),
                              w')))))"

fun astro_files ::
  "network \<Rightarrow> gray_matter \<Rightarrow> ContentDir \<Rightarrow> jsstring \<Rightarrow> jsstring list \<Rightarrow> nat \<times> nat
     \<Rightarrow> astro_world \<Rightarrow> (js_error + nat \<times> nat) \<times> astro_world" where
  "astro_files net gm dir apiKey [] counters w = (Inr counters, w)"
| "astro_files net gm dir apiKey (file # rest) counters w =
     (case astro_file net gm dir apiKey file counters w of
        (Inl e, w') \<Rightarrow> (Inl e, w')
      | (Inr counters', w') \<Rightarrow> astro_files net gm dir apiKey rest counters' w')"

definition astro_translateDirectory ::
  "network \<Rightarrow> gray_matter \<Rightarrow> ContentDir \<Rightarrow> jsstring \<Rightarrow> astro_world
     \<Rightarrow> (js_error + nat \<times> nat) \<times> astro_world" where
  "astro_translateDirectory net gm dir apiKey w =
     (let w0 = w\<lparr>a_files := mkdir (a_files w) (cd_output dir)\<rparr> in
      case readdir (a_files w0) (cd_source dir) of
        Inl e \<Rightarrow> (Inr (0, 0), a_emit [Console_log (Source_not_found (cd_source dir))] w0)
      | Inr names \<Rightarrow> astro_files net gm dir apiKey (filter is_markdown names) (0, 0) w0)"

text \<open>
  The loop of the hook \<open>astro:build:start\<close> over the content directories, each in its own
  \<open>try\<close>, and the hook; \<open>env_key\<close> is \<open>process.env.DEEPLX_API_KEY\<close>.
\<close>

fun hook_dirs ::
  "network \<Rightarrow> gray_matter \<Rightarrow> jsstring \<Rightarrow> ContentDir list \<Rightarrow> nat \<times> nat \<Rightarrow> astro_world
     \<Rightarrow> (nat \<times> nat) \<times> astro_world" where
  "hook_dirs net gm apiKey [] totals w = (totals, w)"
| "hook_dirs net gm apiKey (dir # rest) totals w =
     (case astro_translateDirectory net gm dir apiKey w of
        (Inr result, w') \<Rightarrow>
          hook_dirs net gm apiKey rest (fst totals + fst result, snd totals + snd result) w'
      | (Inl e, w') \<Rightarrow>
          hook_dirs net gm apiKey rest totals
            (a_emit [Console_error (Error_translating (cd_name dir))] w'))"

definition astro_build_start ::
  "bool \<Rightarrow> jsstring option \<Rightarrow> network \<Rightarrow> gray_matter \<Rightarrow> astro_world \<Rightarrow> astro_world" where
  "astro_build_start enabled env_key net gm w =
     (if \<not> enabled then w
      else (case env_key of
              None \<Rightarrow> w
            | Some apiKey \<Rightarrow>
                if apiKey = [] then w
                else snd (hook_dirs net gm apiKey contentDirs (0, 0) w)))"

section \<open>The sequential script: the written file\<close>





section \<open>What the claims about the hash comment speak of\<close>


definition plain_matter :: gray_matter where
  "plain_matter =
     \<lparr>gm_parse = (\<lambda>content. Inr ([], content)),
      gm_stringify = (\<lambda>content fm. Inr (js ''---\<newline>---\<newline>'' @ content @ js ''\<newline>''))\<rparr>"

text \<open>A world with one empty source file \<open>a.md\<close> and an empty output directory.\<close>

definition demo_world :: script_world where
  "demo_world =
     \<lparr>keyManager = new_KeyManager [js ''k1''], trace = [],
      files = (\<lambda>d. if d = js ''src'' then Some [(js ''a.md'', File [])]
                    else if d = js ''out'' then Some [] else None)\<rparr>"

definition demo_item :: queued where
  "demo_item =
     \<lparr>q_file = js ''a.md'', q_outputFileName = getOutputFileName (js ''a.md''),
      q_content = [], q_contentHash = hashContent []\<rparr>"

text \<open>
  Worlds and stand-ins for the concrete runs below: a content directory \<open>src\<close> with
  output \<open>out\<close>; the Astro world over the files of \<open>demo_world\<close>; a gray-matter that
  throws on every file and one that throws on the content "bad" only; a source directory
  with the files \<open>a.md\<close> ("bad") and \<open>b.md\<close> ("ok"); a source file "a" whose output
  holds a comment with another hash before the comment with its own.
\<close>

definition demo_dir :: ContentDir where
  "demo_dir = \<lparr>cd_source = js ''src'', cd_output = js ''out'', cd_name = js ''posts''\<rparr>"

definition demo_astro :: astro_world where
  "demo_astro =
     \<lparr>a_trace = [], a_files = files demo_world, keyIndex = 0, translationCache = Map.empty\<rparr>"

definition failing_matter :: gray_matter where
  "failing_matter =
     \<lparr>gm_parse = (\<lambda>content. Inl ParseError),
      gm_stringify = (\<lambda>content fm. Inl ParseError)\<rparr>"

definition strict_matter :: gray_matter where
  "strict_matter =
     \<lparr>gm_parse = (\<lambda>content. if content = js ''bad'' then Inl ParseError else Inr ([], content)),
      gm_stringify = gm_stringify plain_matter\<rparr>"

definition two_files :: filesystem where
  "two_files =
     (\<lambda>d. if d = js ''src'' then Some [(js ''a.md'', File (js ''bad'')), (js ''b.md'', File (js ''ok''))]
          else if d = js ''out'' then Some [] else None)"

definition two_comments :: filesystem where
  "two_comments =
     (\<lambda>d. if d = js ''src'' then Some [(js ''a.md'', File (js ''a''))]
          else if d = js ''out''
          then Some [(js ''a.md'', File (hash_comment (js ''zz'') @ hash_comment (hashContent (js ''a''))))]
          else None)"

definition skip_files :: filesystem where
  "skip_files =
     (\<lambda>d. if d = js ''src'' then Some [(js ''a.md'', File [])]
          else if d = js ''out'' then Some [(js ''a.md'', File (hash_comment (hashContent [])))]
          else None)"

section \<open>Properties of the key rotation\<close>

lemma rotation_window:
  assumes "xs \<noteq> []"
  shows "map (\<lambda>k. xs ! ((i + k) mod length xs)) [0..<length xs] = rotate i xs"
proof (rule nth_equalityI)
  show "length (map (\<lambda>k. xs ! ((i + k) mod length xs)) [0..<length xs]) = length (rotate i xs)"
    by simp
next
  fix j assume "j < length (map (\<lambda>k. xs ! ((i + k) mod length xs)) [0..<length xs])"
  then have j: "j < length xs" by simp
  then show "map (\<lambda>k. xs ! ((i + k) mod length xs)) [0..<length xs] ! j = rotate i xs ! j"
    by (simp add: nth_rotate)
qed

lemma getNextKey_in_range:
  assumes "index km = Some i" and "i < length (keys km)"
  shows "getNextKey km = (Some (keys km ! i), km\<lparr>index := Some ((i + 1) mod length (keys km))\<rparr>)"
  using assms by (cases "keys km") (auto simp: getNextKey_def)

lemma mset_rotate_eq: "mset (rotate i xs) = mset xs"
proof -
  let ?k = "i mod length xs"
  have "mset xs = mset (take ?k xs) + mset (drop ?k xs)"
    by (metis append_take_drop_id mset_append)
  then show ?thesis by (simp add: rotate_drop_take add.commute)
qed

lemma getNextKey_calls_in_range:
  assumes "index km = Some i" and "i < length (keys km)"
  shows "getNextKey_calls n km =
           (map (\<lambda>k. Some (keys km ! ((i + k) mod length (keys km)))) [0..<n],
            km\<lparr>index := Some ((i + n) mod length (keys km))\<rparr>)"
  using assms
proof (induction n arbitrary: km i)
  case 0
  then show ?case by simp
next
  case (Suc n)
  let ?l = "length (keys km)"
  let ?km' = "km\<lparr>index := Some ((i + 1) mod ?l)\<rparr>"
  have pos: "0 < ?l" using Suc.prems by (cases "keys km") auto
  have step: "getNextKey km = (Some (keys km ! i), ?km')"
    using Suc.prems by (rule getNextKey_in_range)
  have idx': "index ?km' = Some ((i + 1) mod ?l)" by simp
  have lt': "(i + 1) mod ?l < length (keys ?km')" using pos by simp
  have rest: "getNextKey_calls n ?km' =
      (map (\<lambda>k. Some (keys ?km' ! (((i + 1) mod ?l + k) mod length (keys ?km')))) [0..<n],
       ?km'\<lparr>index := Some (((i + 1) mod ?l + n) mod length (keys ?km'))\<rparr>)"
    by (rule Suc.IH [OF idx' lt'])
  have shift: "(Suc i mod ?l + k) mod ?l = Suc (i + k) mod ?l" for k
    by (metis add_Suc mod_add_left_eq)
  have lst: "map (\<lambda>k. Some (keys km ! ((i + k) mod ?l))) [0..<Suc n] =
             Some (keys km ! i) # map (\<lambda>k. Some (keys km ! ((i + Suc k) mod ?l))) [0..<n]"
    using Suc.prems(2) by (simp add: upt_conv_Cons map_Suc_upt [symmetric] del: upt_Suc)
  show ?case
    by (simp only: getNextKey_calls.simps step rest lst prod.case)
       (simp add: shift)
qed

lemma getNextApiKey_calls_nonempty:
  assumes "split_keys s \<noteq> []"
  shows "getNextApiKey_calls n s i =
           (map (\<lambda>k. split_keys s ! ((i + k) mod length (split_keys s))) [0..<n], i + n)"
  using assms
proof (induction n arbitrary: i)
  case 0
  then show ?case by simp
next
  case (Suc n)
  let ?ks = "split_keys s"
  have step: "getNextApiKey s i = (?ks ! (i mod length ?ks), i + 1)"
    using Suc.prems by (simp add: getNextApiKey_def Let_def)
  have rest: "getNextApiKey_calls n s (i + 1) =
      (map (\<lambda>k. ?ks ! ((i + 1 + k) mod length ?ks)) [0..<n], i + 1 + n)"
    by (rule Suc.IH [OF Suc.prems])
  have lst: "map (\<lambda>k. ?ks ! ((i + k) mod length ?ks)) [0..<Suc n] =
             ?ks ! (i mod length ?ks) # map (\<lambda>k. ?ks ! ((i + 1 + k) mod length ?ks)) [0..<n]"
    by (simp add: upt_conv_Cons map_Suc_upt [symmetric] del: upt_Suc)
  show ?case
    by (simp only: getNextApiKey_calls.simps step rest lst prod.case) simp
qed

text \<open>
  Claim C2. For a non-empty list of keys, the call number \<open>n\<close> (from 0) of \<open>getNextKey\<close>
  on a new \<open>KeyManager\<close> returns \<open>keys[n mod length]\<close>, and any \<open>length\<close> consecutive
  calls return every key once (the returned keys are the key list as a multiset). The
  same holds for \<open>getNextApiKey\<close> on the keys that its argument splits into, the module
  counter starting at 0.
\<close>

theorem key_rotation_round_robin:
  "(ks \<noteq> [] \<longrightarrow>
      fst (getNextKey (snd (getNextKey_calls n (new_KeyManager ks)))) = Some (ks ! (n mod length ks)) \<and>
      mset (fst (getNextKey_calls (length ks) (snd (getNextKey_calls m (new_KeyManager ks)))))
        = mset (map Some ks)) \<and>
   (split_keys s \<noteq> [] \<longrightarrow>
      fst (getNextApiKey s (snd (getNextApiKey_calls n s 0)))
        = split_keys s ! (n mod length (split_keys s)) \<and>
      mset (fst (getNextApiKey_calls (length (split_keys s)) s (snd (getNextApiKey_calls m s 0))))
        = mset (split_keys s))"
proof (intro conjI impI)
  assume ne: "ks \<noteq> []"
  let ?km = "new_KeyManager ks"
  have i0: "index ?km = Some 0" and k0: "keys ?km = ks" by (simp_all add: new_KeyManager_def)
  have l0: "0 < length (keys ?km)" using ne k0 by simp
  have after: "snd (getNextKey_calls j ?km) = ?km\<lparr>index := Some (j mod length ks)\<rparr>" for j
    using getNextKey_calls_in_range [OF i0 l0, of j] k0 by simp
  have lt: "j mod length ks < length ks" for j using ne by simp
  show "fst (getNextKey (snd (getNextKey_calls n ?km))) = Some (ks ! (n mod length ks))"
    using lt [of n] by (simp add: after getNextKey_def k0)
  have "fst (getNextKey_calls (length ks) (snd (getNextKey_calls m ?km)))
          = map (\<lambda>k. Some (ks ! ((m mod length ks + k) mod length ks))) [0..<length ks]"
    using getNextKey_calls_in_range
            [of "?km\<lparr>index := Some (m mod length ks)\<rparr>" "m mod length ks" "length ks"]
          lt [of m] k0
    by (simp add: after)
  also have "\<dots> = map Some (map (\<lambda>k. ks ! ((m mod length ks + k) mod length ks)) [0..<length ks])"
    by simp
  also have "\<dots> = map Some (rotate (m mod length ks) ks)"
    by (simp only: rotation_window [OF ne])
  finally show "mset (fst (getNextKey_calls (length ks) (snd (getNextKey_calls m ?km))))
                  = mset (map Some ks)"
    by (simp add: mset_rotate_eq)
next
  assume ne: "split_keys s \<noteq> []"
  let ?ks = "split_keys s"
  show "fst (getNextApiKey s (snd (getNextApiKey_calls n s 0))) = ?ks ! (n mod length ?ks)"
    using ne by (simp add: getNextApiKey_calls_nonempty getNextApiKey_def Let_def)
  have "fst (getNextApiKey_calls (length ?ks) s (snd (getNextApiKey_calls m s 0)))
          = map (\<lambda>k. ?ks ! ((m + k) mod length ?ks)) [0..<length ?ks]"
    using ne by (simp add: getNextApiKey_calls_nonempty)
  also have "\<dots> = rotate m ?ks"
    by (rule rotation_window [OF ne])
  finally show "mset (fst (getNextApiKey_calls (length ?ks) s (snd (getNextApiKey_calls m s 0))))
                  = mset ?ks"
    by (simp add: mset_rotate_eq)
qed

theorem key_rotation_round_robin_witness:
  "[js ''a'', js ''b''] \<noteq> [] \<and> split_keys (js ''a, b'') \<noteq> [] \<and>
   fst (getNextKey (snd (getNextKey_calls 3 (new_KeyManager [js ''a'', js ''b''])))) = Some (js ''b'') \<and>
   fst (getNextApiKey (js ''a, b'') (snd (getNextApiKey_calls 3 (js ''a, b'') 0))) = js ''b''"
proof -
  let ?ks = "[js ''a'', js ''b'']"
  let ?s = "js ''a, b''"
  have ne: "?ks \<noteq> []" by simp
  have sk: "split_keys ?s = ?ks"
    by (simp add: split_keys_def js_def trim_def is_space_def)
  have ne2: "split_keys ?s \<noteq> []" by (simp add: sk)
  have idx: "?ks ! (3 mod length ?ks) = js ''b''" by code_simp
  have c1: "fst (getNextKey (snd (getNextKey_calls 3 (new_KeyManager ?ks)))) = Some (?ks ! (3 mod length ?ks))"
    using key_rotation_round_robin [of ?ks 3 1 ?s] ne by blast
  have c2: "fst (getNextApiKey ?s (snd (getNextApiKey_calls 3 ?s 0))) = split_keys ?s ! (3 mod length (split_keys ?s))"
    using key_rotation_round_robin [of ?ks 3 1 ?s] ne2 by blast
  show ?thesis
    using ne ne2 c1 c2 by (simp only: sk idx)
qed

section \<open>Properties of hashContent and of the hash comment\<close>

lemma unat_digit36: "d < 36 \<Longrightarrow> unat (digit36 d) = (if d < 10 then 48 + d else 87 + d)"
  by (simp add: digit36_def unat_of_nat del: of_nat_add of_nat_numeral)

lemma digit36_base36: "d < 36 \<Longrightarrow> is_base36 (digit36 d)"
  by (auto simp: is_base36_def word_le_nat_alt unat_digit36)

lemma toString36_base36: "toString36 n \<noteq> [] \<and> (\<forall>c \<in> set (toString36 n). is_base36 c)"
proof (induction n rule: toString36.induct)
  case (1 n)
  show ?case
  proof (cases "n < 36")
    case True
    then show ?thesis by (simp add: toString36.simps [of n] digit36_base36)
  next
    case False
    then show ?thesis using 1 by (simp add: toString36.simps [of n] digit36_base36)
  qed
qed

lemma base36_word_char: "is_base36 c \<Longrightarrow> is_word_char c"
  by (auto simp: is_base36_def is_word_char_def)

lemma match_hash_at_comment:
  assumes "h \<noteq> []" and "\<forall>c \<in> set h. is_word_char c"
  shows "match_hash_at (hash_comment h @ rest) = Some h"
proof -
  have sp: "\<not> is_word_char (0x20 :: jschar)" by (simp add: is_word_char_def)
  have tl: "js '' -->'' @ rest = 0x20 # (js ''-->'' @ rest)" by (simp add: js_def)
  have tw: "takeWhile is_word_char (h @ js '' -->'' @ rest) = h"
    using assms(2) sp by (simp add: takeWhile_append2 tl)
  have dw: "dropWhile is_word_char (h @ js '' -->'' @ rest) = js '' -->'' @ rest"
    using assms(2) sp by (simp add: dropWhile_append2 tl)
  have pre: "startsWith (hash_comment h @ rest) (js ''<!-- hash: '')"
    by (simp add: startsWith_def hash_comment_def js_def)
  have dr: "drop 11 (hash_comment h @ rest) = h @ js '' -->'' @ rest"
    by (simp add: hash_comment_def js_def)
  have sw: "startsWith (js '' -->'' @ rest) (js '' -->'')"
    by (simp add: startsWith_def js_def)
  show ?thesis
    unfolding match_hash_at_def Let_def dr tw dw using assms(1) pre sw by simp
qed


lemma match_hash_comment_first:
  assumes "h \<noteq> []" and "\<forall>c \<in> set h. is_word_char c"
  shows "match_hash (hash_comment h @ rest) = Some h"
proof -
  obtain c cs where cc: "hash_comment h @ rest = c # cs"
    by (cases "hash_comment h @ rest") (simp_all add: hash_comment_def js_def)
  have "match_hash_at (c # cs) = Some h"
    using match_hash_at_comment [OF assms, of rest] cc by simp
  then show ?thesis by (simp add: cc)
qed

lemma hashContent_word: "hashContent c \<noteq> [] \<and> (\<forall>x \<in> set (hashContent c). is_base36 x)"
  by (simp add: hashContent_def toString36_base36)

section \<open>Properties of translateFrontmatter\<close>

lemma map_of_put: "map_of (put k v obj) = (map_of obj)(k \<mapsto> v)"
  by (induction obj) (auto simp: fun_eq_iff)

lemma get_put: "get (put k v obj) k' = (if k' = k then v else get obj k')"
  by (simp add: get_def map_of_put)

lemma title_neq_description: "js ''title'' \<noteq> js ''description''"
  by (simp add: js_def)

text \<open>
  Claim C10. In the record that \<open>translateFrontmatter\<close> returns, every key other than
  \<open>title\<close> and \<open>description\<close> has the value (or the absence) it has in the input;
  \<open>title\<close> and \<open>description\<close> read as in the input when the translated argument is absent
  or falsy, and as the translated argument when it is truthy.
\<close>

theorem translateFrontmatter_frame:
  "(k \<noteq> js ''title'' \<and> k \<noteq> js ''description'' \<longrightarrow>
      map_of (translateFrontmatter fm tt td) k = map_of fm k) \<and>
   (\<not> truthy (optional tt) \<longrightarrow>
      get (translateFrontmatter fm tt td) (js ''title'') = get fm (js ''title'')) \<and>
   (\<not> truthy (optional td) \<longrightarrow>
      get (translateFrontmatter fm tt td) (js ''description'') = get fm (js ''description'')) \<and>
   (truthy (optional tt) \<longrightarrow>
      get (translateFrontmatter fm tt td) (js ''title'') = optional tt) \<and>
   (truthy (optional td) \<longrightarrow>
      get (translateFrontmatter fm tt td) (js ''description'') = optional td)"
  using title_neq_description
  by (simp add: translateFrontmatter_def map_of_put get_put js_or_def)

theorem translateFrontmatter_frame_witness:
  "js ''tags'' \<noteq> js ''title'' \<and> js ''tags'' \<noteq> js ''description'' \<and>
   \<not> truthy (optional (Some [])) \<and> truthy (optional (Some (js ''Dream''))) \<and>
   map_of (translateFrontmatter
             [(js ''title'', JStr (js ''t'')), (js ''tags'', JArr [])] (Some []) (Some (js ''Dream'')))
          (js ''tags'') = Some (JArr []) \<and>
   get (translateFrontmatter
          [(js ''title'', JStr (js ''t'')), (js ''tags'', JArr [])] (Some []) (Some (js ''Dream'')))
       (js ''title'') = JStr (js ''t'') \<and>
   get (translateFrontmatter
          [(js ''title'', JStr (js ''t'')), (js ''tags'', JArr [])] (Some []) (Some (js ''Dream'')))
       (js ''description'') = JStr (js ''Dream'')"
proof -
  let ?fm = "[(js ''title'', JStr (js ''t'')), (js ''tags'', JArr [])]"
  note frame = translateFrontmatter_frame [of "js ''tags''" ?fm "Some []" "Some (js ''Dream'')"]
  have k: "js ''tags'' \<noteq> js ''title'' \<and> js ''tags'' \<noteq> js ''description''"
    by (simp add: js_def)
  have f: "\<not> truthy (optional (Some []))" and t: "truthy (optional (Some (js ''Dream'')))"
    by (simp_all add: js_def)
  have m: "map_of ?fm (js ''tags'') = Some (JArr [])" and g: "get ?fm (js ''title'') = JStr (js ''t'')"
    by (simp_all add: js_def get_def)
  from frame k f t have
    "map_of (translateFrontmatter ?fm (Some []) (Some (js ''Dream''))) (js ''tags'') = map_of ?fm (js ''tags'')"
    "get (translateFrontmatter ?fm (Some []) (Some (js ''Dream''))) (js ''title'') = get ?fm (js ''title'')"
    "get (translateFrontmatter ?fm (Some []) (Some (js ''Dream''))) (js ''description'') = optional (Some (js ''Dream''))"
    by blast+
  then show ?thesis using k f t m g by simp
qed

section \<open>Properties of the POST handler\<close>








section \<open>Properties of translateText\<close>

lemma nfetch_append: "nfetch (xs @ ys) = nfetch xs + nfetch ys"
  by (simp add: nfetch_def)

lemma length_fetch_keys: "length (fetch_keys evs) = nfetch evs"
  by (induction evs rule: fetch_keys.induct) (simp_all add: nfetch_def)

lemma fetch_keys_append: "fetch_keys (xs @ ys) = fetch_keys xs @ fetch_keys ys"
  by (induction xs rule: fetch_keys.induct) simp_all

lemma fetch_texts_append: "fetch_texts (xs @ ys) = fetch_texts xs @ fetch_texts ys"
  by (induction xs rule: fetch_texts.induct) simp_all

lemma emit_simps:
  "trace (emit evs w) = trace w @ evs"
  "keyManager (emit evs w) = keyManager w"
  "files (emit evs w) = files w"
  by (simp_all add: emit_def)

lemma translateText_loop_done:
  "\<not> i < retries \<Longrightarrow> translateText_loop net delay txt retries i w = (JNull, w)"
  by (simp add: translateText_loop.simps)

lemma translateText_loop_success:
  assumes "i < retries" and "attempt_succeeds (attempt_response net txt w)"
  shows "translateText_loop net delay txt retries i w
           = (payload_data (attempt_response net txt w), after_fetch txt w)"
proof -
  obtain st sx c m d where r: "attempt_response net txt w = Response st sx (Json c m d)"
    and okc: "ok st" "c = JNum 200"
    using assms(2) by (cases "attempt_response net txt w" rule: attempt_succeeds.cases) auto
  show ?thesis
    using assms(1) r okc
    by (subst translateText_loop.simps)
       (simp add: attempt_response_def after_fetch_def split_beta Let_def)
qed

lemma translateText_loop_failure:
  assumes "i < retries" and "\<not> attempt_succeeds (attempt_response net txt w)"
  shows "\<exists>msg. translateText_loop net delay txt retries i w
           = translateText_loop net delay txt retries (Suc i)
               (emit [Console_error msg, Sleep delay] (after_fetch txt w))"
proof (cases "attempt_response net txt w")
  case FetchThrows
  then show ?thesis using assms(1)
    by (subst translateText_loop.simps)
       (auto simp: attempt_response_def after_fetch_def split_beta Let_def)
next
  case (Response st sx b)
  show ?thesis
  proof (cases b)
    case BadJson
    then show ?thesis using assms(1) Response
      by (subst translateText_loop.simps)
         (auto simp: attempt_response_def after_fetch_def split_beta Let_def)
  next
    case (Json c m d)
    then have "\<not> ok st \<or> c \<noteq> JNum 200" using assms(2) Response by simp
    then show ?thesis using assms(1) Response Json
      by (subst translateText_loop.simps)
         (auto simp: attempt_response_def after_fetch_def split_beta Let_def)
  qed
qed

lemma after_fetch_simps:
  "trace (after_fetch txt w) = trace w @ [Fetch (fst (getNextKey (keyManager w))) (JStr txt)]"
  "keyManager (after_fetch txt w) = snd (getNextKey (keyManager w))"
  "files (after_fetch txt w) = files w"
  by (simp_all add: after_fetch_def emit_def)

lemma getNextKey_calls_Suc:
  "getNextKey_calls (Suc n) km =
     (fst (getNextKey km) # fst (getNextKey_calls n (snd (getNextKey km))),
      snd (getNextKey_calls n (snd (getNextKey km))))"
  by (simp add: split_beta)

lemma translateText_loop_trace:
  "\<exists>evs. trace (snd (translateText_loop net delay txt retries i w)) = trace w @ evs \<and>
         nfetch evs \<le> retries - i \<and>
         fetch_keys evs = fst (getNextKey_calls (nfetch evs) (keyManager w)) \<and>
         keyManager (snd (translateText_loop net delay txt retries i w))
           = snd (getNextKey_calls (nfetch evs) (keyManager w)) \<and>
         set (fetch_texts evs) \<subseteq> {JStr txt} \<and>
         files (snd (translateText_loop net delay txt retries i w)) = files w \<and>
         ((\<forall>n k. \<not> attempt_succeeds (net n k (JStr txt))) \<longrightarrow>
            fst (translateText_loop net delay txt retries i w) = JNull \<and>
            nfetch evs = retries - i \<and> count_list evs (Sleep delay) = retries - i)"
proof (induction "retries - i" arbitrary: i w)
  case 0
  then have "\<not> i < retries" by simp
  then have "translateText_loop net delay txt retries i w = (JNull, w)"
    by (rule translateText_loop_done)
  then show ?case using 0 by (simp add: nfetch_def)
next
  case (Suc n)
  then have lt: "i < retries" and n: "n = retries - Suc i" by simp_all
  let ?k = "fst (getNextKey (keyManager w))"
  show ?case
  proof (cases "attempt_succeeds (attempt_response net txt w)")
    case True
    have eq: "translateText_loop net delay txt retries i w
                = (payload_data (attempt_response net txt w), after_fetch txt w)"
      using lt True by (rule translateText_loop_success)
    have no: "\<not> (\<forall>n k. \<not> attempt_succeeds (net n k (JStr txt)))"
      using True by (auto simp: attempt_response_def)
    show ?thesis
      apply (rule exI [of _ "[Fetch ?k (JStr txt)]"])
      using lt no
      by (auto simp: eq after_fetch_simps nfetch_def split_beta)
  next
    case False
    obtain msg where eq: "translateText_loop net delay txt retries i w
        = translateText_loop net delay txt retries (Suc i)
            (emit [Console_error msg, Sleep delay] (after_fetch txt w))"
      using translateText_loop_failure [OF lt False] by blast
    let ?w2 = "emit [Console_error msg, Sleep delay] (after_fetch txt w)"
    let ?r = "translateText_loop net delay txt retries (Suc i) ?w2"
    obtain evs2 where
      t: "trace (snd ?r) = trace ?w2 @ evs2" and
      b: "nfetch evs2 \<le> retries - Suc i" and
      k: "fetch_keys evs2 = fst (getNextKey_calls (nfetch evs2) (keyManager ?w2))" and
      m: "keyManager (snd ?r) = snd (getNextKey_calls (nfetch evs2) (keyManager ?w2))" and
      x: "set (fetch_texts evs2) \<subseteq> {JStr txt}" and
      f: "files (snd ?r) = files ?w2" and
      e: "(\<forall>n k. \<not> attempt_succeeds (net n k (JStr txt))) \<longrightarrow>
            fst ?r = JNull \<and> nfetch evs2 = retries - Suc i \<and>
            count_list evs2 (Sleep delay) = retries - Suc i"
      using Suc.hyps(1) [OF n, of ?w2] by blast
    let ?evs = "Fetch ?k (JStr txt) # Console_error msg # Sleep delay # evs2"
    have nf: "nfetch ?evs = Suc (nfetch evs2)" by (simp add: nfetch_def)
    have km2: "keyManager ?w2 = snd (getNextKey (keyManager w))"
      by (simp add: emit_simps after_fetch_simps)
    have c1: "trace (snd (translateText_loop net delay txt retries i w)) = trace w @ ?evs"
      by (simp add: eq t emit_simps after_fetch_simps)
    have c2: "nfetch ?evs \<le> retries - i" using b lt by (simp add: nf)
    have c3: "fetch_keys ?evs = fst (getNextKey_calls (nfetch ?evs) (keyManager w))"
      by (simp only: nf getNextKey_calls_Suc fst_conv) (simp add: k km2)
    have c4: "keyManager (snd (translateText_loop net delay txt retries i w))
                = snd (getNextKey_calls (nfetch ?evs) (keyManager w))"
      by (simp only: nf getNextKey_calls_Suc snd_conv) (simp add: eq m km2)
    have c5: "set (fetch_texts ?evs) \<subseteq> {JStr txt}" using x by simp
    have c6: "files (snd (translateText_loop net delay txt retries i w)) = files w"
      by (simp add: eq f emit_simps after_fetch_simps)
    have c7: "(\<forall>n k. \<not> attempt_succeeds (net n k (JStr txt))) \<longrightarrow>
            fst (translateText_loop net delay txt retries i w) = JNull \<and>
            nfetch ?evs = retries - i \<and> count_list ?evs (Sleep delay) = retries - i"
      using e lt by (auto simp: eq nf)
    show ?thesis
      using c1 c2 c3 c4 c5 c6 c7 by blast
  qed
qed

text \<open>
  Claim C3. \<open>translateText\<close> makes at most \<open>retries\<close> requests for a text; the keys of
  the requests are the results of as many consecutive calls of \<open>getNextKey\<close>, and the key
  manager is left after them; an attempt whose response is not ok, whose code is not 200,
  that throws in \<open>fetch\<close> (or whose payload cannot be read) logs, waits \<open>delay\<close> and
  goes on with the next attempt; a successful attempt returns its \<open>data\<close>; when no
  attempt can succeed the result is \<open>null\<close> after exactly \<open>retries\<close> requests and
  waits. The result is always a value: every exception is caught inside the loop.
\<close>

theorem translateText_attempts:
  "(\<exists>evs. trace (snd (translateText_with delay net txt retries w)) = trace w @ evs \<and>
          nfetch evs \<le> retries \<and>
          fetch_keys evs = fst (getNextKey_calls (nfetch evs) (keyManager w)) \<and>
          keyManager (snd (translateText_with delay net txt retries w))
            = snd (getNextKey_calls (nfetch evs) (keyManager w)) \<and>
          set (fetch_texts evs) \<subseteq> {JStr txt} \<and>
          ((\<forall>n k. \<not> attempt_succeeds (net n k (JStr txt))) \<and> trim txt \<noteq> [] \<longrightarrow>
             fst (translateText_with delay net txt retries w) = JNull \<and>
             nfetch evs = retries \<and> count_list evs (Sleep delay) = retries)) \<and>
   (i < retries \<and> \<not> attempt_succeeds (attempt_response net txt w) \<longrightarrow>
      (\<exists>msg. translateText_loop net delay txt retries i w
               = translateText_loop net delay txt retries (Suc i)
                   (emit [Console_error msg, Sleep delay] (after_fetch txt w)))) \<and>
   (i < retries \<and> attempt_succeeds (attempt_response net txt w) \<longrightarrow>
      translateText_loop net delay txt retries i w
        = (payload_data (attempt_response net txt w), after_fetch txt w)) \<and>
   (\<not> i < retries \<longrightarrow> translateText_loop net delay txt retries i w = (JNull, w)) \<and>
   \<not> attempt_succeeds FetchThrows \<and>
   (\<not> ok st \<longrightarrow> \<not> attempt_succeeds (Response st sx b)) \<and>
   (c \<noteq> JNum 200 \<longrightarrow> \<not> attempt_succeeds (Response st sx (Json c m d)))"
proof (intro conjI impI)
  show "\<exists>evs. trace (snd (translateText_with delay net txt retries w)) = trace w @ evs \<and>
          nfetch evs \<le> retries \<and>
          fetch_keys evs = fst (getNextKey_calls (nfetch evs) (keyManager w)) \<and>
          keyManager (snd (translateText_with delay net txt retries w))
            = snd (getNextKey_calls (nfetch evs) (keyManager w)) \<and>
          set (fetch_texts evs) \<subseteq> {JStr txt} \<and>
          ((\<forall>n k. \<not> attempt_succeeds (net n k (JStr txt))) \<and> trim txt \<noteq> [] \<longrightarrow>
             fst (translateText_with delay net txt retries w) = JNull \<and>
             nfetch evs = retries \<and> count_list evs (Sleep delay) = retries)"
  proof (cases "txt = [] \<or> length (trim txt) = 0")
    case True
    then have eq: "translateText_with delay net txt retries w = (JStr txt, w)"
      by (simp add: translateText_with_def)
    have blank: "trim txt = []" using True by (auto simp: trim_def)
    show ?thesis
      by (rule exI [of _ "[]"]) (simp add: eq nfetch_def blank)
  next
    case False
    then have eq: "translateText_with delay net txt retries w
                     = translateText_loop net delay txt retries 0 w"
      by (simp add: translateText_with_def)
    obtain evs where
      "trace (snd (translateText_loop net delay txt retries 0 w)) = trace w @ evs"
      "nfetch evs \<le> retries - 0"
      "fetch_keys evs = fst (getNextKey_calls (nfetch evs) (keyManager w))"
      "keyManager (snd (translateText_loop net delay txt retries 0 w))
           = snd (getNextKey_calls (nfetch evs) (keyManager w))"
      "set (fetch_texts evs) \<subseteq> {JStr txt}"
      "(\<forall>n k. \<not> attempt_succeeds (net n k (JStr txt))) \<longrightarrow>
            fst (translateText_loop net delay txt retries 0 w) = JNull \<and>
            nfetch evs = retries - 0 \<and> count_list evs (Sleep delay) = retries - 0"
      using translateText_loop_trace by blast
    then show ?thesis
      unfolding eq by (intro exI [of _ evs]) simp
  qed
  show "\<exists>msg. translateText_loop net delay txt retries i w
               = translateText_loop net delay txt retries (Suc i)
                   (emit [Console_error msg, Sleep delay] (after_fetch txt w))"
    if "i < retries \<and> \<not> attempt_succeeds (attempt_response net txt w)"
    using that translateText_loop_failure by blast
  show "translateText_loop net delay txt retries i w
        = (payload_data (attempt_response net txt w), after_fetch txt w)"
    if "i < retries \<and> attempt_succeeds (attempt_response net txt w)"
    using that translateText_loop_success by blast
  show "translateText_loop net delay txt retries i w = (JNull, w)" if "\<not> i < retries"
    using that by (rule translateText_loop_done)
  show "\<not> attempt_succeeds FetchThrows" by simp
  show "\<not> attempt_succeeds (Response st sx b)" if "\<not> ok st"
    using that by (cases b) simp_all
  show "\<not> attempt_succeeds (Response st sx (Json c m d))" if "c \<noteq> JNum 200"
    using that by simp
qed

theorem translateText_attempts_witness:
  "(\<forall>n k. \<not> attempt_succeeds (down n k (JStr (js ''a'')))) \<and> trim (js ''a'') \<noteq> [] \<and>
   (0::nat) < 3 \<and> \<not> attempt_succeeds (attempt_response down (js ''a'') one_key_world) \<and>
   fst (translateText_with 500 down (js ''a'') 3 one_key_world) = JNull \<and>
   nfetch (trace (snd (translateText_with 500 down (js ''a'') 3 one_key_world))) = 3"
proof -
  have h1: "\<forall>n k. \<not> attempt_succeeds (down n k (JStr (js ''a'')))" by (simp add: down_def)
  have h2: "trim (js ''a'') \<noteq> []" by (simp add: trim_def js_def is_space_def)
  have h3: "\<not> attempt_succeeds (attempt_response down (js ''a'') one_key_world)"
    by (simp add: attempt_response_def down_def)
  have t0: "trace one_key_world = []" by (simp add: one_key_world_def)
  obtain evs where
    "trace (snd (translateText_with 500 down (js ''a'') 3 one_key_world)) = trace one_key_world @ evs"
    "(\<forall>n k. \<not> attempt_succeeds (down n k (JStr (js ''a'')))) \<and> trim (js ''a'') \<noteq> [] \<longrightarrow>
       fst (translateText_with 500 down (js ''a'') 3 one_key_world) = JNull \<and>
       nfetch evs = 3 \<and> count_list evs (Sleep 500) = 3"
    using translateText_attempts [of 500 down "js ''a''" 3 one_key_world 0] by blast
  then show ?thesis using h1 h2 h3 t0 by simp
qed

section \<open>Properties of translateBatch\<close>

lemma new_events_eq: "trace w' = trace w @ evs \<Longrightarrow> new_events w w' = evs"
  by (simp add: new_events_def)

lemma new_events_refl: "new_events w w = []"
  by (simp add: new_events_def)

lemma translateText_loop_events:
  "trace (snd (translateText_loop net delay txt retries i w))
     = trace w @ new_events w (snd (translateText_loop net delay txt retries i w)) \<and>
   (\<forall>e \<in> set (new_events w (snd (translateText_loop net delay txt retries i w))).
      attempt_event delay txt e) \<and>
   (fst (translateText_loop net delay txt retries i w) = JNull \<or>
    (\<exists>n k. attempt_succeeds (net n k (JStr txt)) \<and>
           fst (translateText_loop net delay txt retries i w) = payload_data (net n k (JStr txt))))"
proof (induction "retries - i" arbitrary: i w)
  case 0
  then have "\<not> i < retries" by simp
  then have "translateText_loop net delay txt retries i w = (JNull, w)"
    by (rule translateText_loop_done)
  then show ?case by (simp add: new_events_refl)
next
  case (Suc n)
  then have lt: "i < retries" and n: "n = retries - Suc i" by simp_all
  let ?k = "fst (getNextKey (keyManager w))"
  show ?case
  proof (cases "attempt_succeeds (attempt_response net txt w)")
    case True
    have eq: "translateText_loop net delay txt retries i w
                = (payload_data (attempt_response net txt w), after_fetch txt w)"
      using lt True by (rule translateText_loop_success)
    have ne: "new_events w (after_fetch txt w) = [Fetch ?k (JStr txt)]"
      by (rule new_events_eq) (simp add: after_fetch_simps)
    have "\<exists>n k. attempt_succeeds (net n k (JStr txt)) \<and>
            payload_data (attempt_response net txt w) = payload_data (net n k (JStr txt))"
      using True unfolding attempt_response_def by blast
    then show ?thesis
      by (simp add: eq ne after_fetch_simps attempt_event_def)
  next
    case False
    obtain msg where eq: "translateText_loop net delay txt retries i w
        = translateText_loop net delay txt retries (Suc i)
            (emit [Console_error msg, Sleep delay] (after_fetch txt w))"
      using translateText_loop_failure [OF lt False] by blast
    let ?w2 = "emit [Console_error msg, Sleep delay] (after_fetch txt w)"
    let ?r = "translateText_loop net delay txt retries (Suc i) ?w2"
    have ih: "trace (snd ?r) = trace ?w2 @ new_events ?w2 (snd ?r) \<and>
              (\<forall>e \<in> set (new_events ?w2 (snd ?r)). attempt_event delay txt e) \<and>
              (fst ?r = JNull \<or>
               (\<exists>n k. attempt_succeeds (net n k (JStr txt)) \<and> fst ?r = payload_data (net n k (JStr txt))))"
      by (rule Suc.hyps(1) [OF n])
    have t2: "trace ?w2 = trace w @ [Fetch ?k (JStr txt), Console_error msg, Sleep delay]"
      by (simp add: emit_simps after_fetch_simps)
    have tr: "trace (snd ?r)
                = trace w @ ([Fetch ?k (JStr txt), Console_error msg, Sleep delay] @ new_events ?w2 (snd ?r))"
      using ih t2 by simp
    have ne: "new_events w (snd ?r)
                = [Fetch ?k (JStr txt), Console_error msg, Sleep delay] @ new_events ?w2 (snd ?r)"
      using tr by (rule new_events_eq)
    have ev: "\<forall>e \<in> set (new_events w (snd ?r)). attempt_event delay txt e"
      using ih by (auto simp: ne attempt_event_def)
    show ?thesis
      unfolding eq using tr ne ev ih by simp
  qed
qed

lemma translateText_with_events:
  "trace (snd (translateText_with delay net txt retries w))
     = trace w @ new_events w (snd (translateText_with delay net txt retries w)) \<and>
   (\<forall>e \<in> set (new_events w (snd (translateText_with delay net txt retries w))).
      attempt_event delay txt e) \<and>
   (fst (translateText_with delay net txt retries w) = JStr txt \<or>
    fst (translateText_with delay net txt retries w) = JNull \<or>
    (\<exists>n k. attempt_succeeds (net n k (JStr txt)) \<and>
           fst (translateText_with delay net txt retries w) = payload_data (net n k (JStr txt))))"
proof (cases "txt = [] \<or> length (trim txt) = 0")
  case True
  then show ?thesis by (simp add: translateText_with_def new_events_refl)
next
  case False
  then have eq: "translateText_with delay net txt retries w
                   = translateText_loop net delay txt retries 0 w"
    by (simp add: translateText_with_def)
  show ?thesis
    unfolding eq using translateText_loop_events [of net delay "txt" retries 0 w] by blast
qed


lemma translate_item_skip:
  "skip_text txt \<Longrightarrow> translate_item net idx txt w = ((idx, JStr txt), w)"
  by (simp add: translate_item_def)


lemma translate_item_props:
  "fst (fst (translate_item net idx txt w)) = idx \<and>
   item_result net txt (snd (fst (translate_item net idx txt w))) \<and>
   trace (snd (translate_item net idx txt w))
     = trace w @ new_events w (snd (translate_item net idx txt w)) \<and>
   (\<forall>e \<in> set (new_events w (snd (translate_item net idx txt w))).
      \<not> skip_text txt \<and> attempt_event 500 txt e)"
proof (cases "skip_text txt")
  case True
  then show ?thesis
    by (simp add: translate_item_skip new_events_refl item_result_def)
next
  case False
  let ?r = "translateText_with 500 net txt 3 w"
  have eq: "translate_item net idx txt w = ((idx, js_or (fst ?r) (JStr txt)), snd ?r)"
    using False by (simp add: translate_item_def translateText_def split_beta)
  note ev = translateText_with_events [of 500 net "txt" 3 w]
  have res: "item_result net txt (js_or (fst ?r) (JStr txt))"
    using ev by (auto simp: item_result_def js_or_def)
  show ?thesis
    unfolding eq using ev res False by simp
qed

lemma run_batch_Cons:
  "run_batch net i idx (t # rest) w =
     (fst (translate_item net (i + idx) t w)
        # fst (run_batch net i (Suc idx) rest (snd (translate_item net (i + idx) t w))),
      snd (run_batch net i (Suc idx) rest (snd (translate_item net (i + idx) t w))))"
  by (simp add: split_beta)

lemma batch_event_mono: "set xs \<subseteq> set ys \<Longrightarrow> batch_event xs e \<Longrightarrow> batch_event ys e"
  by (auto simp: batch_event_def)

lemma batch_event_not_sleep: "batch_event texts e \<Longrightarrow> e \<noteq> Sleep DELAY_MS"
  by (auto simp: batch_event_def attempt_event_def DELAY_MS_def)

lemma run_batch_props:
  "length (fst (run_batch net i idx batch w)) = length batch \<and>
   map fst (fst (run_batch net i idx batch w)) = [i + idx ..< i + idx + length batch] \<and>
   (\<forall>j < length batch. \<exists>wj.
      fst (run_batch net i idx batch w) ! j = fst (translate_item net (i + idx + j) (batch ! j) wj)) \<and>
   trace (snd (run_batch net i idx batch w))
     = trace w @ new_events w (snd (run_batch net i idx batch w)) \<and>
   (\<forall>e \<in> set (new_events w (snd (run_batch net i idx batch w))). batch_event batch e)"
proof (induction batch arbitrary: idx w)
  case Nil
  then show ?case by (simp add: new_events_refl)
next
  case (Cons t rest)
  let ?it = "translate_item net (i + idx) t w"
  let ?w1 = "snd ?it"
  let ?rb = "run_batch net i (Suc idx) rest ?w1"
  note ih = Cons.IH [of "Suc idx" ?w1]
  note ip = translate_item_props [of net "i + idx" t w]
  have eq: "run_batch net i idx (t # rest) w = (fst ?it # fst ?rb, snd ?rb)"
    by (rule run_batch_Cons)
  have len: "length (fst ?it # fst ?rb) = length (t # rest)" using ih by simp
  have ih_idx: "map fst (fst ?rb) = [i + Suc idx ..< i + Suc idx + length rest]"
    using ih by blast
  have ip_fst: "fst (fst ?it) = i + idx" using ip by blast
  have a: "i + Suc idx = Suc (i + idx)" by simp
  have b: "i + idx + length (t # rest) = Suc (i + idx) + length rest" by simp
  have c: "[i + idx ..< Suc (i + idx) + length rest]
             = (i + idx) # [Suc (i + idx) ..< Suc (i + idx) + length rest]"
    by (rule upt_conv_Cons) simp
  have "map fst (fst ?it # fst ?rb) = fst (fst ?it) # map fst (fst ?rb)" by simp
  also have "\<dots> = (i + idx) # [Suc (i + idx) ..< Suc (i + idx) + length rest]"
    by (simp only: ip_fst ih_idx a)
  also have "\<dots> = [i + idx ..< i + idx + length (t # rest)]"
    by (simp only: b c)
  finally have idxs: "map fst (fst ?it # fst ?rb) = [i + idx ..< i + idx + length (t # rest)]" .
  have nth: "\<forall>j < length (t # rest). \<exists>wj.
      (fst ?it # fst ?rb) ! j = fst (translate_item net (i + idx + j) ((t # rest) ! j) wj)"
  proof (intro allI impI)
    fix j assume j: "j < length (t # rest)"
    show "\<exists>wj. (fst ?it # fst ?rb) ! j = fst (translate_item net (i + idx + j) ((t # rest) ! j) wj)"
    proof (cases j)
      case 0
      then show ?thesis by auto
    next
      case (Suc j')
      then have "j' < length rest" using j by simp
      then obtain wj where "fst ?rb ! j' = fst (translate_item net (i + Suc idx + j') (rest ! j') wj)"
        using ih by blast
      then show ?thesis using Suc by auto
    qed
  qed
  have tr: "trace (snd ?rb) = trace w @ (new_events w ?w1 @ new_events ?w1 (snd ?rb))"
    using ih ip by simp
  have ne: "new_events w (snd ?rb) = new_events w ?w1 @ new_events ?w1 (snd ?rb)"
    using tr by (rule new_events_eq)
  have ev1: "\<forall>e \<in> set (new_events w ?w1). batch_event (t # rest) e"
    using ip by (auto simp: batch_event_def)
  have ev2: "\<forall>e \<in> set (new_events ?w1 (snd ?rb)). batch_event (t # rest) e"
    using ih by (auto simp: batch_event_def)
  have ev: "\<forall>e \<in> set (new_events w (snd ?rb)). batch_event (t # rest) e"
    using ev1 ev2 by (auto simp: ne)
  have tr': "trace (snd ?rb) = trace w @ new_events w (snd ?rb)"
    using tr ne by simp
  show ?case
    unfolding eq fst_conv snd_conv using len idxs nth tr' ev by blast
qed

lemma batch_count_step:
  "i + 5 < (n::nat) \<Longrightarrow> (n - Suc i) div 5 = Suc ((n - Suc (i + 5)) div 5)"
proof -
  assume h: "i + 5 < n"
  define m where "m = n - Suc (i + 5)"
  have "n - Suc i = m + 5" using h by (simp add: m_def)
  then have "(n - Suc i) div 5 = (m + 5) div 5" by (rule arg_cong)
  also have "\<dots> = Suc (m div 5)" by simp
  finally show ?thesis by (simp add: m_def)
qed

lemma batch_count_last:
  "i < (n::nat) \<Longrightarrow> \<not> i + 5 < n \<Longrightarrow> (n - Suc i) div 5 = 0 \<and> (n - Suc (i + 5)) div 5 = 0"
  by simp

lemma no_batch_sleep:
  "\<forall>e \<in> set evs. batch_event b e \<Longrightarrow> count_list evs (Sleep DELAY_MS) = 0"
  using batch_event_not_sleep by (auto simp: count_list_0_iff)

lemma slice_batch:
  assumes "i < length texts"
  shows "length (slice texts i (i + CONCURRENCY)) = min CONCURRENCY (length texts - i)"
    and "set (slice texts i (i + CONCURRENCY)) \<subseteq> set texts"
    and "j < length (slice texts i (i + CONCURRENCY)) \<Longrightarrow>
           slice texts i (i + CONCURRENCY) ! j = texts ! (i + j)"
proof -
  show "length (slice texts i (i + CONCURRENCY)) = min CONCURRENCY (length texts - i)"
    by (simp add: slice_def min_def)
  show "set (slice texts i (i + CONCURRENCY)) \<subseteq> set texts"
    unfolding slice_def by (meson set_take_subset set_drop_subset subset_trans)
  show "slice texts i (i + CONCURRENCY) ! j = texts ! (i + j)"
    if "j < length (slice texts i (i + CONCURRENCY))"
    using that assms by (simp add: slice_def)
qed

lemma translateBatch_loop_step:
  assumes "i < length texts"
  shows "translateBatch_loop net texts i results w =
           translateBatch_loop net texts (i + CONCURRENCY)
             (results @ fst (run_batch net i 0 (slice texts i (i + CONCURRENCY)) w))
             (if i + CONCURRENCY < length texts
              then emit [Sleep DELAY_MS] (snd (run_batch net i 0 (slice texts i (i + CONCURRENCY)) w))
              else snd (run_batch net i 0 (slice texts i (i + CONCURRENCY)) w))"
  using assms by (subst translateBatch_loop.simps) (simp add: split_beta Let_def)

lemma translateBatch_loop_exit:
  "\<not> i < length texts \<Longrightarrow> translateBatch_loop net texts i results w = (results, w)"
  by (subst translateBatch_loop.simps) simp

lemma translateBatch_loop_props:
  "\<exists>new. fst (translateBatch_loop net texts i results w) = results @ new \<and>
         map fst new = [i ..< length texts] \<and>
         (\<forall>j < length new. \<exists>wj.
            new ! j = fst (translate_item net (i + j) (texts ! (i + j)) wj)) \<and>
         trace (snd (translateBatch_loop net texts i results w))
           = trace w @ new_events w (snd (translateBatch_loop net texts i results w)) \<and>
         (\<forall>e \<in> set (new_events w (snd (translateBatch_loop net texts i results w))).
            batch_event texts e \<or> e = Sleep DELAY_MS) \<and>
         count_list (new_events w (snd (translateBatch_loop net texts i results w))) (Sleep DELAY_MS)
           = (length texts - Suc i) div CONCURRENCY"
proof (induction "length texts - i" arbitrary: i results w rule: less_induct)
  case less
  show ?case
  proof (cases "i < length texts")
    case False
    then have eq: "translateBatch_loop net texts i results w = (results, w)"
      by (rule translateBatch_loop_exit)
    show ?thesis
      using False by (intro exI [of _ "[]"]) (simp add: eq new_events_refl)
  next
    case True
    let ?b = "slice texts i (i + CONCURRENCY)"
    let ?rb = "run_batch net i 0 ?b w"
    let ?w1 = "snd ?rb"
    let ?w1' = "if i + CONCURRENCY < length texts then emit [Sleep DELAY_MS] ?w1 else ?w1"
    let ?r = "translateBatch_loop net texts (i + CONCURRENCY) (results @ fst ?rb) ?w1'"
    have eq: "translateBatch_loop net texts i results w = ?r"
      using True by (rule translateBatch_loop_step)
    have pos: "0 < CONCURRENCY" by (simp add: CONCURRENCY_def)
    have lenb: "length ?b = min CONCURRENCY (length texts - i)"
      using True by (rule slice_batch(1))
    note rb = run_batch_props [of net i 0 ?b w]
    have rb_len: "length (fst ?rb) = length ?b" using rb by blast
    have rb_idx: "map fst (fst ?rb) = [i ..< i + length ?b]" using rb by simp
    have rb_tr: "trace ?w1 = trace w @ new_events w ?w1" using rb by blast
    have rb_ev: "\<forall>e \<in> set (new_events w ?w1). batch_event ?b e" using rb by blast
    have dec: "length texts - (i + CONCURRENCY) < length texts - i"
      using True pos by simp
    obtain new2 where
      n1: "fst ?r = (results @ fst ?rb) @ new2" and
      n2: "map fst new2 = [i + CONCURRENCY ..< length texts]" and
      n3: "\<forall>j < length new2. \<exists>wj.
             new2 ! j = fst (translate_item net (i + CONCURRENCY + j) (texts ! (i + CONCURRENCY + j)) wj)" and
      n4: "trace (snd ?r) = trace ?w1' @ new_events ?w1' (snd ?r)" and
      n5: "\<forall>e \<in> set (new_events ?w1' (snd ?r)). batch_event texts e \<or> e = Sleep DELAY_MS" and
      n6: "count_list (new_events ?w1' (snd ?r)) (Sleep DELAY_MS)
             = (length texts - Suc (i + CONCURRENCY)) div CONCURRENCY"
      using less [OF dec, of "results @ fst ?rb" ?w1'] by blast
    let ?new = "fst ?rb @ new2"
    have len2: "length new2 = length texts - (i + CONCURRENCY)"
      using n2 by (metis length_map length_upt)
    have c1: "fst ?r = results @ ?new" using n1 by simp
    have c2: "map fst ?new = [i ..< length texts]"
    proof (cases "i + CONCURRENCY \<le> length texts")
      case True
      then have "length ?b = CONCURRENCY" using lenb by simp
      then have "map fst ?new = [i ..< i + CONCURRENCY] @ [i + CONCURRENCY ..< length texts]"
        using rb_idx n2 by simp
      also have "\<dots> = [i ..< length texts]"
        using True by (metis le_add1 upt_add_eq_append le_Suc_ex)
      finally show ?thesis .
    next
      case False
      then have l: "length ?b = length texts - i" using lenb by simp
      have "[i + CONCURRENCY ..< length texts] = []" using False by simp
      then show ?thesis using rb_idx n2 l \<open>i < length texts\<close> by simp
    qed
    have c3: "\<forall>j < length ?new. \<exists>wj.
                ?new ! j = fst (translate_item net (i + j) (texts ! (i + j)) wj)"
    proof (intro allI impI)
      fix j assume j: "j < length ?new"
      show "\<exists>wj. ?new ! j = fst (translate_item net (i + j) (texts ! (i + j)) wj)"
      proof (cases "j < length ?b")
        case True
        then obtain wj where
          "fst ?rb ! j = fst (translate_item net (i + 0 + j) (?b ! j) wj)"
          using rb by blast
        moreover have "?b ! j = texts ! (i + j)"
          using slice_batch(3) [OF \<open>i < length texts\<close> True] .
        ultimately show ?thesis
          using True rb_len by (auto simp: nth_append)
      next
        case False
        then have j2: "j - length ?b < length new2" using j rb_len by simp
        then have "new2 \<noteq> []" by auto
        then have "i + CONCURRENCY < length texts"
          using len2 by (cases "i + CONCURRENCY < length texts") auto
        then have full: "length ?b = CONCURRENCY" using lenb by simp
        obtain wj where
          "new2 ! (j - length ?b) = fst (translate_item net (i + CONCURRENCY + (j - length ?b))
                                          (texts ! (i + CONCURRENCY + (j - length ?b))) wj)"
          using n3 j2 by blast
        moreover have "i + CONCURRENCY + (j - length ?b) = i + j"
          using False full by simp
        ultimately show ?thesis
          using False rb_len by (auto simp: nth_append)
      qed
    qed
    have w1': "trace ?w1' = trace ?w1 @ (if i + CONCURRENCY < length texts then [Sleep DELAY_MS] else [])"
      by (simp add: emit_simps)
    let ?mid = "if i + CONCURRENCY < length texts then [Sleep DELAY_MS] else []"
    have tr: "trace (snd ?r) = trace w @ (new_events w ?w1 @ ?mid @ new_events ?w1' (snd ?r))"
      using n4 w1' rb_tr by simp
    have ne: "new_events w (snd ?r) = new_events w ?w1 @ ?mid @ new_events ?w1' (snd ?r)"
      using tr by (rule new_events_eq)
    have c4: "trace (snd ?r) = trace w @ new_events w (snd ?r)"
      using tr ne by simp
    have sub: "set ?b \<subseteq> set texts" using True by (rule slice_batch(2))
    have ev1: "\<forall>e \<in> set (new_events w ?w1). batch_event texts e"
      using rb_ev batch_event_mono [OF sub] by blast
    have c5: "\<forall>e \<in> set (new_events w (snd ?r)). batch_event texts e \<or> e = Sleep DELAY_MS"
      using ev1 n5 by (auto simp: ne split: if_splits)
    have z: "count_list (new_events w ?w1) (Sleep DELAY_MS) = 0"
      using rb_ev by (rule no_batch_sleep)
    have c6: "count_list (new_events w (snd ?r)) (Sleep DELAY_MS)
                = (length texts - Suc i) div CONCURRENCY"
    proof (cases "i + CONCURRENCY < length texts")
      case True
      then have st: "(length texts - Suc i) div CONCURRENCY
                   = Suc ((length texts - Suc (i + CONCURRENCY)) div CONCURRENCY)"
        unfolding CONCURRENCY_def by (rule batch_count_step)
      have "count_list (new_events w (snd ?r)) (Sleep DELAY_MS)
              = Suc ((length texts - Suc (i + CONCURRENCY)) div CONCURRENCY)"
        using True z n6 ne by simp
      then show ?thesis by (simp only: st)
    next
      case False
      have ab: "(length texts - Suc i) div CONCURRENCY = 0 \<and>
                (length texts - Suc (i + CONCURRENCY)) div CONCURRENCY = 0"
        using \<open>i < length texts\<close> False unfolding CONCURRENCY_def by (rule batch_count_last)
      have "count_list (new_events w (snd ?r)) (Sleep DELAY_MS)
              = (length texts - Suc (i + CONCURRENCY)) div CONCURRENCY"
        using False z n6 ne by simp
      then show ?thesis using ab by (simp only:)
    qed
    show ?thesis
      unfolding eq using c1 c2 c3 c4 c5 c6 by blast
  qed
qed







lemma translateBatch_results:
  "length (fst (translateBatch net texts w)) = length texts \<and>
   (\<forall>i < length texts. \<exists>wi.
      fst (translateBatch net texts w) ! i = snd (fst (translate_item net i (texts ! i) wi))) \<and>
   trace (snd (translateBatch net texts w)) = trace w @ new_events w (snd (translateBatch net texts w)) \<and>
   (\<forall>e \<in> set (new_events w (snd (translateBatch net texts w))).
      batch_event texts e \<or> e = Sleep DELAY_MS) \<and>
   count_list (new_events w (snd (translateBatch net texts w))) (Sleep DELAY_MS)
      = (length texts - 1) div CONCURRENCY"
proof -
  let ?lp = "translateBatch_loop net texts 0 [] w"
  obtain new where
    n1: "fst ?lp = [] @ new" and
    n2: "map fst new = [0 ..< length texts]" and
    n3: "\<forall>j < length new. \<exists>wj. new ! j = fst (translate_item net (0 + j) (texts ! (0 + j)) wj)" and
    n4: "trace (snd ?lp) = trace w @ new_events w (snd ?lp)" and
    n5: "\<forall>e \<in> set (new_events w (snd ?lp)). batch_event texts e \<or> e = Sleep DELAY_MS" and
    n6: "count_list (new_events w (snd ?lp)) (Sleep DELAY_MS) = (length texts - Suc 0) div CONCURRENCY"
    using translateBatch_loop_props [of net texts 0 "[]" w] by blast
  have len: "length new = length texts" using n2 by (metis length_map length_upt diff_zero)
  have "sorted (map fst new)" using n2 by simp
  then have srt: "sort_key fst new = new" by (rule sort_key_id_if_sorted)
  have res: "fst (translateBatch net texts w) = map snd new"
    using n1 srt by (simp add: translateBatch_def split_beta)
  have wd: "snd (translateBatch net texts w) = snd ?lp"
    by (simp add: translateBatch_def split_beta)
  have nth: "\<forall>i < length texts. \<exists>wi.
      map snd new ! i = snd (fst (translate_item net i (texts ! i) wi))"
  proof (intro allI impI)
    fix i assume i: "i < length texts"
    then obtain wi where "new ! i = fst (translate_item net (0 + i) (texts ! (0 + i)) wi)"
      using n3 len by auto
    then show "\<exists>wi. map snd new ! i = snd (fst (translate_item net i (texts ! i) wi))"
      using i len by auto
  qed
  show ?thesis
    unfolding res wd using len nth n4 n5 n6 by simp
qed

section \<open>Properties of the sequential paragraph loop\<close>









section \<open>Properties of the skip check\<close>



lemma map_of_put_entry: "map_of (put_entry f e es) = (map_of es)(f \<mapsto> e)"
  by (induction es) (auto simp: fun_eq_iff)

lemma readFile_writeFile:
  "writeFile fs d f c = Inr fs' \<Longrightarrow> readFile fs' d f = Inr c"
  by (auto simp: writeFile_def readFile_def map_of_put_entry
           split: option.splits entry.splits)

lemma process_file_try_written:
  assumes "process_file_try net gm outputDir it w = (None, w')"
  shows "\<exists>translatedBody fm finalFile.
           gm_stringify gm (final_content (q_contentHash it) translatedBody) fm = Inr finalFile \<and>
           readFile (files w') outputDir (q_outputFileName it) = Inr finalFile"
  using assms unfolding process_file_try_def Let_def
  by (auto split: sum.splits prod.splits simp: emit_def dest!: readFile_writeFile) blast


lemma hashContent_nonempty_word:
  "hashContent c \<noteq> [] \<and> (\<forall>x \<in> set (hashContent c). is_word_char x)"
  using hashContent_word [of c] base36_word_char by blast









section \<open>What the script leaves unchanged, and what it logs\<close>

lemma translateText_with_files:
  "files (snd (translateText_with delay net t retries w)) = files w"
proof (cases "t = [] \<or> length (trim t) = 0")
  case True
  then show ?thesis by (simp add: translateText_with_def)
next
  case False
  then have "translateText_with delay net t retries w = translateText_loop net delay t retries 0 w"
    by (simp add: translateText_with_def)
  then show ?thesis using translateText_loop_trace [of net delay t retries 0 w] by auto
qed

lemma translate_item_files: "files (snd (translate_item net idx t w)) = files w"
  by (simp add: translate_item_def translateText_def split_beta translateText_with_files)

lemma run_batch_files: "files (snd (run_batch net i idx batch w)) = files w"
  by (induction batch arbitrary: idx w) (simp_all add: split_beta translate_item_files)

lemma translateBatch_loop_files:
  "files (snd (translateBatch_loop net texts i results w)) = files w"
proof (induction "length texts - i" arbitrary: i results w rule: less_induct)
  case less
  show ?case
  proof (cases "i < length texts")
    case False
    then show ?thesis by (simp add: translateBatch_loop_exit)
  next
    case True
    have dec: "length texts - (i + CONCURRENCY) < length texts - i"
      using True by (simp add: CONCURRENCY_def)
    show ?thesis
      unfolding translateBatch_loop_step [OF True]
      by (simp add: less [OF dec] run_batch_files emit_simps)
  qed
qed

lemma translateBatch_files: "files (snd (translateBatch net texts w)) = files w"
  by (simp add: translateBatch_def split_beta translateBatch_loop_files)

lemma translate_field_files: "files (snd (translate_field net v w)) = files w"
  by (cases v) (simp_all add: translate_field_def translateText_def translateText_with_files)

lemma translate_field_trace:
  "\<exists>evs. trace (snd (translate_field net v w)) = trace w @ evs"
proof (cases v)
  case (JStr s)
  then show ?thesis
    using translateText_with_events [of 500 net s 3 w]
    by (auto simp: translate_field_def translateText_def)
qed (simp_all add: translate_field_def)

lemma translateBatch_trace:
  "\<exists>evs. trace (snd (translateBatch net texts w)) = trace w @ evs"
  using translateBatch_results [of net texts w] by blast

lemma process_file_try_frame:
  "(\<exists>evs. trace (snd (process_file_try net gm outputDir it w)) = trace w @ evs) \<and>
   (fst (process_file_try net gm outputDir it w) \<noteq> None \<longrightarrow>
      files (snd (process_file_try net gm outputDir it w)) = files w) \<and>
   (fst (process_file_try net gm outputDir it w) = None \<longrightarrow>
      (\<exists>evs. trace (snd (process_file_try net gm outputDir it w))
               = trace w @ evs @ [Console_log (Done (q_file it))]))"
proof (cases "gm_parse gm (q_content it)")
  case (Inl e)
  then show ?thesis by (simp add: process_file_try_def)
next
  case (Inr p)
  obtain parsed_data mdBody where p: "p = (parsed_data, mdBody)" by (cases p)
  let ?fm = "ensure_fields parsed_data"
  let ?tb = "translateBatch net (split_paragraphs mdBody) w"
  let ?t1 = "translate_field net (get ?fm (js ''title'')) (snd ?tb)"
  let ?t2 = "translate_field net (get ?fm (js ''description'')) (snd ?t1)"
  obtain e1 where e1: "trace (snd ?tb) = trace w @ e1" using translateBatch_trace by blast
  obtain e2 where e2: "trace (snd ?t1) = trace (snd ?tb) @ e2" using translate_field_trace by blast
  obtain e3 where e3: "trace (snd ?t2) = trace (snd ?t1) @ e3" using translate_field_trace by blast
  have tr: "trace (snd ?t2) = trace w @ (e1 @ e2 @ e3)" using e1 e2 e3 by simp
  have fl: "files (snd ?t2) = files w"
    by (simp add: translate_field_files translateBatch_files)
  have cases: "(fst (process_file_try net gm outputDir it w) \<noteq> None \<and>
                process_file_try net gm outputDir it w = (fst (process_file_try net gm outputDir it w), snd ?t2))
               \<or> (\<exists>fs'. process_file_try net gm outputDir it w
                     = (None, emit [Console_log (Done (q_file it))] ((snd ?t2)\<lparr>files := fs'\<rparr>)))"
    using Inr p unfolding process_file_try_def Let_def
    by (auto split: sum.splits prod.splits)
  show ?thesis
  proof (rule disjE [OF cases])
    assume a: "fst (process_file_try net gm outputDir it w) \<noteq> None \<and>
       process_file_try net gm outputDir it w = (fst (process_file_try net gm outputDir it w), snd ?t2)"
    then have "snd (process_file_try net gm outputDir it w) = snd ?t2" by (metis snd_conv)
    then show ?thesis using tr fl a by auto
  next
    assume "\<exists>fs'. process_file_try net gm outputDir it w
                     = (None, emit [Console_log (Done (q_file it))] ((snd ?t2)\<lparr>files := fs'\<rparr>))"
    then obtain fs' where a: "process_file_try net gm outputDir it w
                     = (None, emit [Console_log (Done (q_file it))] ((snd ?t2)\<lparr>files := fs'\<rparr>))" by blast
    have "trace (snd (process_file_try net gm outputDir it w))
            = trace w @ (e1 @ e2 @ e3) @ [Console_log (Done (q_file it))]"
      using tr by (simp add: a emit_def)
    then show ?thesis by (metis a fst_conv append.assoc)
  qed
qed

lemma process_file_trace:
  "\<exists>evs. trace (process_file net gm outputDir it w)
           = trace w @ [Console_log (Translating (q_file it))] @ evs \<and>
         (Console_log (Done (q_file it)) \<in> set evs \<or>
          Console_error (Failed_to_process (q_file it)) \<in> set evs)"
proof -
  let ?w0 = "emit [Console_log (Translating (q_file it))] w"
  let ?r = "process_file_try net gm outputDir it ?w0"
  note fr = process_file_try_frame [of net gm outputDir it ?w0]
  have t0: "trace ?w0 = trace w @ [Console_log (Translating (q_file it))]"
    by (simp add: emit_simps)
  show ?thesis
  proof (cases "fst ?r")
    case None
    then obtain evs where "trace (snd ?r) = trace ?w0 @ evs @ [Console_log (Done (q_file it))]"
      using fr by blast
    moreover have "process_file net gm outputDir it w = snd ?r"
      using None by (simp add: process_file_def split_beta)
    ultimately show ?thesis
      by (intro exI [of _ "evs @ [Console_log (Done (q_file it))]"]) (simp add: t0)
  next
    case (Some e)
    obtain evs where "trace (snd ?r) = trace ?w0 @ evs" using fr by blast
    moreover have "process_file net gm outputDir it w
                     = emit [Console_error (Failed_to_process (q_file it))] (snd ?r)"
      using Some by (simp add: process_file_def split_beta)
    ultimately show ?thesis
      by (intro exI [of _ "evs @ [Console_error (Failed_to_process (q_file it))]"])
         (simp add: t0 emit_simps)
  qed
qed

lemma process_files_trace:
  "\<exists>evs. trace (process_files net gm outputDir queue w) = trace w @ evs \<and>
         (\<forall>it \<in> set queue.
            Console_log (Translating (q_file it)) \<in> set evs \<and>
            (Console_log (Done (q_file it)) \<in> set evs \<or>
             Console_error (Failed_to_process (q_file it)) \<in> set evs))"
proof (induction queue arbitrary: w)
  case Nil
  then show ?case by simp
next
  case (Cons it rest)
  let ?w1 = "process_file net gm outputDir it w"
  obtain e1 where
    e1: "trace ?w1 = trace w @ [Console_log (Translating (q_file it))] @ e1" and
    d1: "Console_log (Done (q_file it)) \<in> set e1 \<or>
         Console_error (Failed_to_process (q_file it)) \<in> set e1"
    using process_file_trace by blast
  obtain e2 where
    e2: "trace (process_files net gm outputDir rest ?w1) = trace ?w1 @ e2" and
    d2: "\<forall>it \<in> set rest.
            Console_log (Translating (q_file it)) \<in> set e2 \<and>
            (Console_log (Done (q_file it)) \<in> set e2 \<or>
             Console_error (Failed_to_process (q_file it)) \<in> set e2)"
    using Cons.IH [of ?w1] by blast
  show ?case
    by (intro exI [of _ "[Console_log (Translating (q_file it))] @ e1 @ e2"])
       (use e1 e2 d1 d2 in auto)
qed

section \<open>What the Astro integration leaves unchanged\<close>

lemma a_emit_simps:
  "a_trace (a_emit evs w) = a_trace w @ evs"
  "a_files (a_emit evs w) = a_files w"
  "translationCache (a_emit evs w) = translationCache w"
  "keyIndex (a_emit evs w) = keyIndex w"
  by (simp_all add: a_emit_def)

lemma translateMarkdown_frame:
  "a_files (snd (translateMarkdown net c k w)) = a_files w \<and>
   translationCache (snd (translateMarkdown net c k w)) = translationCache w \<and>
   (\<exists>evs. a_trace (snd (translateMarkdown net c k w)) = a_trace w @ evs)"
  unfolding translateMarkdown_def Let_def
  by (auto simp: a_emit_simps split: prod.splits fetch_result.splits http_body.splits)

lemma translate_optional_frame:
  "a_files (snd (translate_optional net k v w)) = a_files w \<and>
   translationCache (snd (translate_optional net k v w)) = translationCache w \<and>
   (\<exists>evs. a_trace (snd (translate_optional net k v w)) = a_trace w @ evs)"
proof (cases "truthy v")
  case False
  then show ?thesis by (simp add: translate_optional_def)
next
  case True
  have "snd (translate_optional net k v w) = snd (translateMarkdown net v k w)"
    using True by (simp add: translate_optional_def split: prod.splits translate_result.splits)
  then show ?thesis using translateMarkdown_frame [of net v k w] by simp
qed

lemma writeFile_dirs:
  "writeFile fs d f c = Inr fs' \<Longrightarrow> (fs' d' \<noteq> None) = (fs d' \<noteq> None)"
  by (auto simp: writeFile_def split: option.splits entry.splits if_splits)

lemma astro_translate_frame:
  "(fst (astro_translate net gm dir k file content h w) = Inr True \<longrightarrow>
      (\<exists>out translated fm.
         gm_stringify gm (astro_content h translated) fm = Inr out \<and>
         translationCache (snd (astro_translate net gm dir k file content h w))
           = (translationCache w)(h \<mapsto> out) \<and>
         readFile (a_files (snd (astro_translate net gm dir k file content h w)))
           (cd_output dir) file = Inr out)) \<and>
   (fst (astro_translate net gm dir k file content h w) \<noteq> Inr True \<longrightarrow>
      a_files (snd (astro_translate net gm dir k file content h w)) = a_files w \<and>
      translationCache (snd (astro_translate net gm dir k file content h w)) = translationCache w) \<and>
   (fst (astro_translate net gm dir k file content h w) = Inr False \<longrightarrow>
      (\<exists>evs err. a_trace (snd (astro_translate net gm dir k file content h w))
          = a_trace w @ evs @ [Console_error (Failed_to_translate file err)])) \<and>
   (\<forall>d. a_files w d \<noteq> None \<longrightarrow>
      a_files (snd (astro_translate net gm dir k file content h w)) d \<noteq> None)"
proof (cases "gm_parse gm content")
  case (Inl e)
  then show ?thesis by (simp add: astro_translate_def)
next
  case (Inr p)
  obtain fm md where p: "p = (fm, md)" by (cases p)
  let ?w1 = "a_emit [Console_log (Translating file)] w"
  let ?m = "translateMarkdown net (JStr md) k ?w1"
  note fm = translateMarkdown_frame [of net "JStr md" k ?w1]
  obtain e1 where e1: "a_trace (snd ?m) = a_trace w @ [Console_log (Translating file)] @ e1"
    using fm by (auto simp: a_emit_simps)
  have f1: "a_files (snd ?m) = a_files w" "translationCache (snd ?m) = translationCache w"
    using fm by (simp_all add: a_emit_simps)
  show ?thesis
  proof (cases "fst ?m")
    case (Failure err)
    have eq: "astro_translate net gm dir k file content h w
                = (Inr False, a_emit [Console_error (Failed_to_translate file err)] (snd ?m))"
      using Inr p Failure by (simp add: astro_translate_def split_beta)
    have "a_trace (a_emit [Console_error (Failed_to_translate file err)] (snd ?m))
            = a_trace w @ ([Console_log (Translating file)] @ e1) @ [Console_error (Failed_to_translate file err)]"
      by (simp add: a_emit_simps e1)
    then show ?thesis
      unfolding eq using f1 by (auto simp: a_emit_simps)
  next
    case (Success translated)
    let ?o1 = "translate_optional net k (get fm (js ''title'')) (snd ?m)"
    let ?o2 = "translate_optional net k (get fm (js ''description'')) (snd ?o1)"
    note fo1 = translate_optional_frame [of net k "get fm (js ''title'')" "snd ?m"]
    note fo2 = translate_optional_frame [of net k "get fm (js ''description'')" "snd ?o1"]
    have f2: "a_files (snd ?o1) = a_files w" "translationCache (snd ?o1) = translationCache w"
      using fo1 f1 by simp_all
    have f3: "a_files (snd ?o2) = a_files w" "translationCache (snd ?o2) = translationCache w"
      using fo2 f2 by simp_all
    have cases:
      "(\<exists>e. astro_translate net gm dir k file content h w = (Inl e, snd ?o1)) \<or>
       (\<exists>e. astro_translate net gm dir k file content h w = (Inl e, snd ?o2)) \<or>
       (\<exists>out fm' fs'.
          gm_stringify gm (astro_content h translated) fm' = Inr out \<and>
          writeFile (a_files (snd ?o2)) (cd_output dir) file out = Inr fs' \<and>
          astro_translate net gm dir k file content h w
            = (Inr True, a_emit [Sleep 1000]
                 ((snd ?o2)\<lparr>a_files := fs',
                     translationCache := (translationCache (snd ?o2))(h \<mapsto> out)\<rparr>)))"
      using Inr p Success unfolding astro_translate_def
      by (auto simp: split_beta split: sum.splits)
    then show ?thesis
    proof (elim disjE exE conjE)
      fix e assume "astro_translate net gm dir k file content h w = (Inl e, snd ?o1)"
      then show ?thesis using f2 by simp
    next
      fix e assume "astro_translate net gm dir k file content h w = (Inl e, snd ?o2)"
      then show ?thesis using f3 by simp
    next
      fix out fm' fs'
      assume s: "gm_stringify gm (astro_content h translated) fm' = Inr out"
        and wr: "writeFile (a_files (snd ?o2)) (cd_output dir) file out = Inr fs'"
        and eq: "astro_translate net gm dir k file content h w
            = (Inr True, a_emit [Sleep 1000]
                 ((snd ?o2)\<lparr>a_files := fs',
                     translationCache := (translationCache (snd ?o2))(h \<mapsto> out)\<rparr>))"
      have rd: "readFile fs' (cd_output dir) file = Inr out"
        using wr by (rule readFile_writeFile)
      have dirs: "\<forall>d. a_files w d \<noteq> None \<longrightarrow> fs' d \<noteq> None"
        using writeFile_dirs [OF wr] f3 by simp
      show ?thesis
        unfolding eq using s rd dirs f3 by (auto simp: a_emit_simps)
    qed
  qed
qed

lemma astro_file_cache_hit:
  assumes "stat_isDirectory (a_files w) (cd_source dir) file = Inr False"
    and "readFile (a_files w) (cd_source dir) file = Inr content"
    and "translationCache w (hashContent content) = Some cached"
  shows "astro_file net gm dir k file counters w =
           (case writeFile (a_files w) (cd_output dir) file cached of
              Inl e \<Rightarrow> (Inl e, w)
            | Inr fs' \<Rightarrow> (Inr (fst counters, snd counters + 1), w\<lparr>a_files := fs'\<rparr>))"
  using assms by (simp add: astro_file_def Let_def)

lemma astro_file_hash_match:
  assumes "stat_isDirectory (a_files w) (cd_source dir) file = Inr False"
    and "readFile (a_files w) (cd_source dir) file = Inr content"
    and "translationCache w (hashContent content) = None"
    and "existing_hash (a_files w) (cd_output dir) file = Some (hashContent content)"
  shows "astro_file net gm dir k file counters w = (Inr (fst counters, snd counters + 1), w)"
  using assms by (simp add: astro_file_def Let_def)

lemma astro_file_translate:
  assumes "stat_isDirectory (a_files w) (cd_source dir) file = Inr False"
    and "readFile (a_files w) (cd_source dir) file = Inr content"
    and "translationCache w (hashContent content) = None"
    and "existing_hash (a_files w) (cd_output dir) file \<noteq> Some (hashContent content)"
  shows "astro_file net gm dir k file counters w =
           (case astro_translate net gm dir k file content (hashContent content) w of
              (Inl e, w') \<Rightarrow> (Inl e, w')
            | (Inr done, w') \<Rightarrow>
                (Inr (if done then (fst counters + 1, snd counters) else counters), w'))"
  using assms by (simp add: astro_file_def Let_def)

lemma astro_file_dirs:
  "a_files w d \<noteq> None \<Longrightarrow> a_files (snd (astro_file net gm dir k file counters w)) d \<noteq> None"
  using astro_translate_frame [of net gm dir k "file" _ _ w]
  unfolding astro_file_def Let_def
  by (auto simp: split_beta dest: writeFile_dirs
           split: sum.splits option.splits if_splits)

lemma astro_files_dirs:
  "a_files w d \<noteq> None \<Longrightarrow> a_files (snd (astro_files net gm dir k names counters w)) d \<noteq> None"
proof (induction names arbitrary: counters w)
  case Nil
  then show ?case by simp
next
  case (Cons fname rest)
  let ?r = "astro_file net gm dir k fname counters w"
  have d: "a_files (snd ?r) d \<noteq> None" using Cons.prems by (rule astro_file_dirs)
  show ?case
  proof (cases "fst ?r")
    case (Inl e)
    then show ?thesis using d by (simp add: split_beta)
  next
    case (Inr c)
    then show ?thesis using Cons.IH [OF d] by (simp add: split_beta)
  qed
qed

lemma mkdir_dirs: "mkdir fs d d \<noteq> None" "fs d' \<noteq> None \<Longrightarrow> mkdir fs d d' \<noteq> None"
  by (auto simp: mkdir_def split: option.splits)

lemma astro_translateDirectory_dirs:
  "a_files (snd (astro_translateDirectory net gm dir k w)) (cd_output dir) \<noteq> None \<and>
   (a_files w d \<noteq> None \<longrightarrow> a_files (snd (astro_translateDirectory net gm dir k w)) d \<noteq> None)"
proof -
  let ?w0 = "w\<lparr>a_files := mkdir (a_files w) (cd_output dir)\<rparr>"
  have a: "a_files ?w0 (cd_output dir) \<noteq> None" by (simp add: mkdir_dirs)
  have b: "a_files w d \<noteq> None \<Longrightarrow> a_files ?w0 d \<noteq> None" by (simp add: mkdir_dirs)
  show ?thesis
  proof (cases "readdir (a_files ?w0) (cd_source dir)")
    case (Inl e)
    then show ?thesis using a b
      by (simp add: astro_translateDirectory_def Let_def a_emit_simps)
  next
    case (Inr names)
    then have eq: "astro_translateDirectory net gm dir k w
                     = astro_files net gm dir k (filter is_markdown names) (0, 0) ?w0"
      by (simp add: astro_translateDirectory_def Let_def)
    show ?thesis
      unfolding eq using astro_files_dirs [OF a] astro_files_dirs [OF b] by blast
  qed
qed

lemma astro_files_abort:
  "fst (astro_file net gm dir k file counters w) = Inl e \<Longrightarrow>
   astro_files net gm dir k (file # rest) counters w
     = (Inl e, snd (astro_file net gm dir k file counters w))"
  by (simp add: split_beta)

lemma astro_files_continue:
  "fst (astro_file net gm dir k file counters w) = Inr c \<Longrightarrow>
   astro_files net gm dir k (file # rest) counters w
     = astro_files net gm dir k rest c (snd (astro_file net gm dir k file counters w))"
  by (simp add: split_beta)

lemma hook_dirs_error:
  "fst (astro_translateDirectory net gm dir k w) = Inl e \<Longrightarrow>
   hook_dirs net gm k (dir # dirs) totals w
     = hook_dirs net gm k dirs totals
         (a_emit [Console_error (Error_translating (cd_name dir))]
            (snd (astro_translateDirectory net gm dir k w)))"
  by (simp add: split_beta)

lemma hook_dirs_started:
  "(\<forall>dir \<in> set dirs. a_files (snd (hook_dirs net gm k dirs totals w)) (cd_output dir) \<noteq> None) \<and>
   (a_files w d \<noteq> None \<longrightarrow> a_files (snd (hook_dirs net gm k dirs totals w)) d \<noteq> None)"
proof (induction dirs arbitrary: totals w d)
  case Nil
  then show ?case by simp
next
  case (Cons dir rest)
  let ?r = "astro_translateDirectory net gm dir k w"
  note td = astro_translateDirectory_dirs [of net gm dir k w]
  show ?case
  proof (cases "fst ?r")
    case (Inl e)
    let ?w1 = "a_emit [Console_error (Error_translating (cd_name dir))] (snd ?r)"
    have eq: "hook_dirs net gm k (dir # rest) totals w = hook_dirs net gm k rest totals ?w1"
      using Inl by (rule hook_dirs_error)
    have o: "a_files ?w1 (cd_output dir) \<noteq> None" using td by (simp add: a_emit_simps)
    have p: "a_files w d \<noteq> None \<longrightarrow> a_files ?w1 d \<noteq> None"
      using astro_translateDirectory_dirs [of net gm dir k w d] by (simp add: a_emit_simps)
    show ?thesis
      unfolding eq using Cons.IH [of totals ?w1] o p by auto
  next
    case (Inr c)
    let ?t = "(fst totals + fst c, snd totals + snd c)"
    have eq: "hook_dirs net gm k (dir # rest) totals w = hook_dirs net gm k rest ?t (snd ?r)"
      using Inr by (simp add: split_beta)
    have o: "a_files (snd ?r) (cd_output dir) \<noteq> None" using td by simp
    have p: "a_files w d \<noteq> None \<longrightarrow> a_files (snd ?r) d \<noteq> None"
      using astro_translateDirectory_dirs [of net gm dir k w d] by simp
    show ?thesis
      unfolding eq using Cons.IH [of ?t "snd ?r"] o p by auto
  qed
qed

section \<open>The translation cache\<close>


lemma demo_files:
  "files demo_world (js ''src'') = Some [(js ''a.md'', File [])]"
  "files demo_world (js ''out'') = Some []"
  by (simp_all add: demo_world_def js_def)


section \<open>The check and the processing of one file\<close>

lemma existing_hash_iff:
  "existing_hash fs d f = Some h \<longleftrightarrow>
     (\<exists>existing. readFile fs d f = Inr existing \<and> match_hash existing = Some h)"
  by (auto simp: existing_hash_def split: sum.splits)

lemma collect_file_skip:
  assumes "stat_isDirectory (files w) sourceDir file = Inr False"
    and "readFile (files w) sourceDir file = Inr content"
    and "existing_hash (files w) outputDir (getOutputFileName file) = Some (hashContent content)"
  shows "collect_file sourceDir outputDir file q w
           = (Inr q, emit [Console_log (Skip_cached file)] w)"
  using assms by (simp add: collect_file_def Let_def)

lemma collect_file_queue:
  assumes "stat_isDirectory (files w) sourceDir file = Inr False"
    and "readFile (files w) sourceDir file = Inr content"
    and "existing_hash (files w) outputDir (getOutputFileName file) \<noteq> Some (hashContent content)"
  shows "collect_file sourceDir outputDir file q w
           = (Inr (q @ [\<lparr>q_file = file, q_outputFileName = getOutputFileName file,
                         q_content = content, q_contentHash = hashContent content\<rparr>]), w)"
  using assms by (simp add: collect_file_def Let_def)

lemma process_file_written:
  assumes "fst (process_file_try net gm outputDir it (emit [Console_log (Translating (q_file it))] w)) = None"
  shows "\<exists>translatedBody fm finalFile.
           gm_stringify gm (final_content (q_contentHash it) translatedBody) fm = Inr finalFile \<and>
           readFile (files (process_file net gm outputDir it w)) outputDir (q_outputFileName it)
             = Inr finalFile"
proof -
  let ?r = "process_file_try net gm outputDir it (emit [Console_log (Translating (q_file it))] w)"
  have r: "?r = (None, snd ?r)" using assms by (metis prod.collapse)
  have p: "process_file net gm outputDir it w = snd ?r"
    using assms by (simp add: process_file_def split_beta)
  show ?thesis
    unfolding p using process_file_try_written [OF r] .
qed

lemma process_file_failed:
  assumes "fst (process_file_try net gm outputDir it (emit [Console_log (Translating (q_file it))] w)) \<noteq> None"
  shows "process_file net gm outputDir it w
           = emit [Console_error (Failed_to_process (q_file it))]
               (snd (process_file_try net gm outputDir it
                       (emit [Console_log (Translating (q_file it))] w)))"
    and "files (process_file net gm outputDir it w) = files w"
proof -
  let ?w0 = "emit [Console_log (Translating (q_file it))] w"
  let ?r = "process_file_try net gm outputDir it ?w0"
  obtain e where e: "fst ?r = Some e" using assms by auto
  show p: "process_file net gm outputDir it w
           = emit [Console_error (Failed_to_process (q_file it))] (snd ?r)"
    using e by (simp add: process_file_def split_beta)
  have "files (snd ?r) = files ?w0"
    using process_file_try_frame [of net gm outputDir it ?w0] assms by blast
  then show "files (process_file net gm outputDir it w) = files w"
    by (simp add: p emit_simps)
qed

text \<open>
  Claim C1, as the code has it. The check reads the first match of the regular
  expression in the existing output. In the script a file whose first match equals
  \<open>hashContent\<close> of the source is skipped: it is not queued, and the check changes
  nothing but the log; any other file is queued, and a queued file is written when its
  \<open>try\<close> block completes and leaves the files as they are when it throws. In the Astro
  integration a content hash found in the in-memory cache makes the body write the
  cached text; otherwise a first match equal to the hash skips the file and changes
  nothing; otherwise the file is sent for translation, and it is written exactly when
  the body returns \<open>true\<close>.
\<close>

theorem skip_by_hash:
  "(stat_isDirectory (files w) sourceDir file = Inr False \<and>
    readFile (files w) sourceDir file = Inr content \<longrightarrow>
      (existing_hash (files w) outputDir (getOutputFileName file) = Some (hashContent content) \<longrightarrow>
         collect_file sourceDir outputDir file q w
           = (Inr q, emit [Console_log (Skip_cached file)] w)) \<and>
      (existing_hash (files w) outputDir (getOutputFileName file) \<noteq> Some (hashContent content) \<longrightarrow>
         collect_file sourceDir outputDir file q w
           = (Inr (q @ [\<lparr>q_file = file, q_outputFileName = getOutputFileName file,
                         q_content = content, q_contentHash = hashContent content\<rparr>]), w))) \<and>
   (existing_hash fs d f = Some h \<longleftrightarrow>
      (\<exists>existing. readFile fs d f = Inr existing \<and> match_hash existing = Some h)) \<and>
   (fst (process_file_try net gm outputDir it (emit [Console_log (Translating (q_file it))] w)) = None \<longrightarrow>
      (\<exists>translatedBody fm finalFile.
         gm_stringify gm (final_content (q_contentHash it) translatedBody) fm = Inr finalFile \<and>
         readFile (files (process_file net gm outputDir it w)) outputDir (q_outputFileName it)
           = Inr finalFile)) \<and>
   (fst (process_file_try net gm outputDir it (emit [Console_log (Translating (q_file it))] w)) \<noteq> None \<longrightarrow>
      files (process_file net gm outputDir it w) = files w) \<and>
   (stat_isDirectory (a_files aw) (cd_source dir) file = Inr False \<and>
    readFile (a_files aw) (cd_source dir) file = Inr content \<longrightarrow>
      (translationCache aw (hashContent content) = Some cached \<longrightarrow>
         astro_file net gm dir k file counters aw =
           (case writeFile (a_files aw) (cd_output dir) file cached of
              Inl e \<Rightarrow> (Inl e, aw)
            | Inr fs' \<Rightarrow> (Inr (fst counters, snd counters + 1), aw\<lparr>a_files := fs'\<rparr>))) \<and>
      (translationCache aw (hashContent content) = None \<and>
       existing_hash (a_files aw) (cd_output dir) file = Some (hashContent content) \<longrightarrow>
         astro_file net gm dir k file counters aw = (Inr (fst counters, snd counters + 1), aw)) \<and>
      (translationCache aw (hashContent content) = None \<and>
       existing_hash (a_files aw) (cd_output dir) file \<noteq> Some (hashContent content) \<longrightarrow>
         astro_file net gm dir k file counters aw =
           (case astro_translate net gm dir k file content (hashContent content) aw of
              (Inl e, w') \<Rightarrow> (Inl e, w')
            | (Inr done, w') \<Rightarrow>
                (Inr (if done then (fst counters + 1, snd counters) else counters), w')))) \<and>
   (fst (astro_translate net gm dir k file content h aw) = Inr True \<longrightarrow>
      (\<exists>out. readFile (a_files (snd (astro_translate net gm dir k file content h aw)))
                (cd_output dir) file = Inr out)) \<and>
   (fst (astro_translate net gm dir k file content h aw) \<noteq> Inr True \<longrightarrow>
      a_files (snd (astro_translate net gm dir k file content h aw)) = a_files aw)"
proof (intro conjI impI)
  show "collect_file sourceDir outputDir file q w
           = (Inr q, emit [Console_log (Skip_cached file)] w)"
    if "stat_isDirectory (files w) sourceDir file = Inr False \<and>
        readFile (files w) sourceDir file = Inr content"
      and "existing_hash (files w) outputDir (getOutputFileName file) = Some (hashContent content)"
    using that collect_file_skip by blast
  show "collect_file sourceDir outputDir file q w
           = (Inr (q @ [\<lparr>q_file = file, q_outputFileName = getOutputFileName file,
                         q_content = content, q_contentHash = hashContent content\<rparr>]), w)"
    if "stat_isDirectory (files w) sourceDir file = Inr False \<and>
        readFile (files w) sourceDir file = Inr content"
      and "existing_hash (files w) outputDir (getOutputFileName file) \<noteq> Some (hashContent content)"
    using that collect_file_queue by blast
  show "existing_hash fs d f = Some h \<longleftrightarrow>
      (\<exists>existing. readFile fs d f = Inr existing \<and> match_hash existing = Some h)"
    by (rule existing_hash_iff)
  show "\<exists>translatedBody fm finalFile.
         gm_stringify gm (final_content (q_contentHash it) translatedBody) fm = Inr finalFile \<and>
         readFile (files (process_file net gm outputDir it w)) outputDir (q_outputFileName it)
           = Inr finalFile"
    if "fst (process_file_try net gm outputDir it (emit [Console_log (Translating (q_file it))] w)) = None"
    using that by (rule process_file_written)
  show "files (process_file net gm outputDir it w) = files w"
    if "fst (process_file_try net gm outputDir it (emit [Console_log (Translating (q_file it))] w)) \<noteq> None"
    using that by (rule process_file_failed(2))
  show "astro_file net gm dir k file counters aw =
           (case writeFile (a_files aw) (cd_output dir) file cached of
              Inl e \<Rightarrow> (Inl e, aw)
            | Inr fs' \<Rightarrow> (Inr (fst counters, snd counters + 1), aw\<lparr>a_files := fs'\<rparr>))"
    if "stat_isDirectory (a_files aw) (cd_source dir) file = Inr False \<and>
        readFile (a_files aw) (cd_source dir) file = Inr content"
      and "translationCache aw (hashContent content) = Some cached"
    using that astro_file_cache_hit by blast
  show "astro_file net gm dir k file counters aw = (Inr (fst counters, snd counters + 1), aw)"
    if "stat_isDirectory (a_files aw) (cd_source dir) file = Inr False \<and>
        readFile (a_files aw) (cd_source dir) file = Inr content"
      and "translationCache aw (hashContent content) = None \<and>
           existing_hash (a_files aw) (cd_output dir) file = Some (hashContent content)"
    using that astro_file_hash_match by blast
  show "astro_file net gm dir k file counters aw =
           (case astro_translate net gm dir k file content (hashContent content) aw of
              (Inl e, w') \<Rightarrow> (Inl e, w')
            | (Inr done, w') \<Rightarrow>
                (Inr (if done then (fst counters + 1, snd counters) else counters), w'))"
    if "stat_isDirectory (a_files aw) (cd_source dir) file = Inr False \<and>
        readFile (a_files aw) (cd_source dir) file = Inr content"
      and "translationCache aw (hashContent content) = None \<and>
           existing_hash (a_files aw) (cd_output dir) file \<noteq> Some (hashContent content)"
    using that astro_file_translate by blast
  show "\<exists>out. readFile (a_files (snd (astro_translate net gm dir k file content h aw)))
                (cd_output dir) file = Inr out"
    if "fst (astro_translate net gm dir k file content h aw) = Inr True"
    using that astro_translate_frame [of net gm dir k "file" content h aw] by blast
  show "a_files (snd (astro_translate net gm dir k file content h aw)) = a_files aw"
    if "fst (astro_translate net gm dir k file content h aw) \<noteq> Inr True"
    using that astro_translate_frame [of net gm dir k "file" content h aw] by blast
qed

lemma a_md: "getOutputFileName (js ''a.md'') = js ''a.md''"
  by (simp add: getOutputFileName_def FILE_NAME_MAP_def js_def)

lemma src_ne_out: "js ''src'' \<noteq> js ''out''"
  by (simp add: js_def)

theorem skip_by_hash_witness:
  "stat_isDirectory (files (demo_world\<lparr>files := skip_files\<rparr>)) (js ''src'') (js ''a.md'') = Inr False \<and>
   readFile (files (demo_world\<lparr>files := skip_files\<rparr>)) (js ''src'') (js ''a.md'') = Inr [] \<and>
   existing_hash (files (demo_world\<lparr>files := skip_files\<rparr>)) (js ''out'')
     (getOutputFileName (js ''a.md'')) = Some (hashContent []) \<and>
   collect_file (js ''src'') (js ''out'') (js ''a.md'') [] (demo_world\<lparr>files := skip_files\<rparr>)
     = (Inr [], emit [Console_log (Skip_cached (js ''a.md''))] (demo_world\<lparr>files := skip_files\<rparr>))"
proof -
  let ?w = "demo_world\<lparr>files := skip_files\<rparr>"
  have s: "skip_files (js ''src'') = Some [(js ''a.md'', File [])]"
    by (simp add: skip_files_def)
  have o: "skip_files (js ''out'') = Some [(js ''a.md'', File (hash_comment (hashContent [])))]"
    using src_ne_out by (simp add: skip_files_def)
  have h1: "stat_isDirectory (files ?w) (js ''src'') (js ''a.md'') = Inr False"
    by (simp add: stat_isDirectory_def s)
  have h2: "readFile (files ?w) (js ''src'') (js ''a.md'') = Inr []"
    by (simp add: readFile_def s)
  have m: "match_hash (hash_comment (hashContent []) @ []) = Some (hashContent [])"
    using hashContent_nonempty_word [of "[]"] by (intro match_hash_comment_first) auto
  have h3: "existing_hash (files ?w) (js ''out'') (getOutputFileName (js ''a.md'')) = Some (hashContent [])"
    using m by (simp add: existing_hash_def readFile_def o a_md)
  have c: "collect_file (js ''src'') (js ''out'') (js ''a.md'') [] ?w
             = (Inr [], emit [Console_log (Skip_cached (js ''a.md''))] ?w)"
    using skip_by_hash [of ?w "js ''src''" "js ''a.md''" "[]" "js ''out''" "[]"] h1 h2 h3 by blast
  show ?thesis using h1 h2 h3 c by blast
qed

text \<open>
  The output of the source "a" holds the comment with the hash of "a", after a comment
  with the hash \<open>zz\<close>: the script reads \<open>zz\<close> and queues the file. And in the Astro
  integration a file that has no output yet and whose translation fails is not written.
\<close>

theorem skip_check_counterexample:
  "readFile two_comments (js ''out'') (getOutputFileName (js ''a.md''))
     = Inr (hash_comment (js ''zz'') @ hash_comment (hashContent (js ''a'')) @ []) \<and>
   collect_file (js ''src'') (js ''out'') (js ''a.md'') [] (demo_world\<lparr>files := two_comments\<rparr>)
     = (Inr [\<lparr>q_file = js ''a.md'', q_outputFileName = js ''a.md'',
               q_content = js ''a'', q_contentHash = hashContent (js ''a'')\<rparr>],
        demo_world\<lparr>files := two_comments\<rparr>) \<and>
   existing_hash (a_files demo_astro) (cd_output demo_dir) (js ''a.md'') \<noteq> Some (hashContent []) \<and>
   fst (astro_file down plain_matter demo_dir (js ''k1'') (js ''a.md'') (0, 0) demo_astro) = Inr (0, 0) \<and>
   readFile (a_files (snd (astro_file down plain_matter demo_dir (js ''k1'') (js ''a.md'') (0, 0) demo_astro)))
     (cd_output demo_dir) (js ''a.md'') = Inl FsError"
proof -
  let ?w = "demo_world\<lparr>files := two_comments\<rparr>"
  have s: "two_comments (js ''src'') = Some [(js ''a.md'', File (js ''a''))]"
    by (simp add: two_comments_def)
  have o: "two_comments (js ''out'')
             = Some [(js ''a.md'', File (hash_comment (js ''zz'') @ hash_comment (hashContent (js ''a''))))]"
    using src_ne_out by (simp add: two_comments_def)
  have r: "readFile two_comments (js ''out'') (js ''a.md'')
             = Inr (hash_comment (js ''zz'') @ hash_comment (hashContent (js ''a'')))"
    by (simp add: readFile_def o)
  have zz: "match_hash (hash_comment (js ''zz'') @ hash_comment (hashContent (js ''a''))) = Some (js ''zz'')"
    by (intro match_hash_comment_first) (simp_all add: js_def is_word_char_def)
  have h: "hashContent (js ''a'') = js ''2p''"
    by (simp add: hashContent_def js_def hash_step_def toString36.simps digit36_def)
  have ne: "js ''zz'' \<noteq> hashContent (js ''a'')" by (simp add: h) (simp add: js_def)
  have eh: "existing_hash (files ?w) (js ''out'') (getOutputFileName (js ''a.md'')) \<noteq> Some (hashContent (js ''a''))"
    using ne by (simp add: existing_hash_def r zz a_md)
  have st: "stat_isDirectory (files ?w) (js ''src'') (js ''a.md'') = Inr False"
    by (simp add: stat_isDirectory_def s)
  have rd: "readFile (files ?w) (js ''src'') (js ''a.md'') = Inr (js ''a'')"
    by (simp add: readFile_def s)
  have c1: "collect_file (js ''src'') (js ''out'') (js ''a.md'') [] ?w
     = (Inr [\<lparr>q_file = js ''a.md'', q_outputFileName = js ''a.md'',
               q_content = js ''a'', q_contentHash = hashContent (js ''a'')\<rparr>], ?w)"
    using collect_file_queue [OF st rd eh, of "[]"] by (simp add: a_md)
  have af: "a_files demo_astro = files demo_world" "translationCache demo_astro = Map.empty"
           "keyIndex demo_astro = 0" "a_trace demo_astro = []"
    by (simp_all add: demo_astro_def)
  have sd: "cd_source demo_dir = js ''src''" "cd_output demo_dir = js ''out''"
    by (simp_all add: demo_dir_def)
  have ds: "files demo_world (js ''src'') = Some [(js ''a.md'', File [])]"
           "files demo_world (js ''out'') = Some []"
    by (rule demo_files)+
  have noout: "readFile (a_files demo_astro) (cd_output demo_dir) (js ''a.md'') = Inl FsError"
    by (simp add: af sd readFile_def ds)
  have eh2: "existing_hash (a_files demo_astro) (cd_output demo_dir) (js ''a.md'') \<noteq> Some (hashContent [])"
    by (simp add: existing_hash_def noout)
  have st2: "stat_isDirectory (a_files demo_astro) (cd_source demo_dir) (js ''a.md'') = Inr False"
    by (simp add: af sd stat_isDirectory_def ds)
  have rd2: "readFile (a_files demo_astro) (cd_source demo_dir) (js ''a.md'') = Inr []"
    by (simp add: af sd readFile_def ds)
  have k: "getNextApiKey (js ''k1'') 0 = (js ''k1'', 1)"
    by (simp add: getNextApiKey_def split_keys_def trim_def is_space_def js_def)
  have k1: "js ''k1'' \<noteq> []" by (simp add: js_def)
  have tm: "fst (translateMarkdown down (JStr []) (js ''k1'')
                   (a_emit [Console_log (Translating (js ''a.md''))] demo_astro)) = Failure Thrown"
    using k1 by (simp add: translateMarkdown_def a_emit_simps af k down_def Let_def)
  have at: "fst (astro_translate down plain_matter demo_dir (js ''k1'') (js ''a.md'') []
                   (hashContent []) demo_astro) = Inr False"
    using tm by (simp add: astro_translate_def plain_matter_def split_beta)
  have afile: "astro_file down plain_matter demo_dir (js ''k1'') (js ''a.md'') (0, 0) demo_astro
                 = (Inr (0, 0), snd (astro_translate down plain_matter demo_dir (js ''k1'') (js ''a.md'') []
                                       (hashContent []) demo_astro))"
    using astro_file_translate [OF st2 rd2 _ eh2, of down plain_matter "js ''k1''" "(0, 0)"] at
    by (simp add: af split_beta)
  have same: "a_files (snd (astro_translate down plain_matter demo_dir (js ''k1'') (js ''a.md'') []
                              (hashContent []) demo_astro)) = a_files demo_astro"
    using astro_translate_frame [of down plain_matter demo_dir "js ''k1''" "js ''a.md''" "[]"
            "hashContent []" demo_astro] at by simp
  show ?thesis
    using r c1 eh2 noout by (simp add: afile same a_md)
qed

section \<open>Failures\<close>

text \<open>
  Claim C5, as the code has it. In the script an exception in the \<open>try\<close> block of a
  queued file is logged ("Failed to process") with the files unchanged, and the loop goes
  on: every queued file is started and ends with "Done" or "Failed to process". In the
  Astro integration a failed translation is logged and the loop goes on with the next
  file, with no file and no cache entry changed; an exception thrown in the loop body
  (parsing, trimming, serialising, writing) ends \<open>translateDirectory\<close> for that directory,
  its remaining files unprocessed; the hook logs it and goes on with the remaining
  content directories, so that every content directory is started.
\<close>

theorem failures_do_not_abort:
  "(fst (process_file_try net gm outputDir it (emit [Console_log (Translating (q_file it))] w)) \<noteq> None \<longrightarrow>
      process_file net gm outputDir it w
        = emit [Console_error (Failed_to_process (q_file it))]
            (snd (process_file_try net gm outputDir it
                    (emit [Console_log (Translating (q_file it))] w))) \<and>
      files (process_file net gm outputDir it w) = files w) \<and>
   (\<exists>evs. trace (process_files net gm outputDir queue w) = trace w @ evs \<and>
          (\<forall>x \<in> set queue.
             Console_log (Translating (q_file x)) \<in> set evs \<and>
             (Console_log (Done (q_file x)) \<in> set evs \<or>
              Console_error (Failed_to_process (q_file x)) \<in> set evs))) \<and>
   (stat_isDirectory (a_files aw) (cd_source dir) file = Inr False \<and>
    readFile (a_files aw) (cd_source dir) file = Inr content \<and>
    translationCache aw (hashContent content) = None \<and>
    existing_hash (a_files aw) (cd_output dir) file \<noteq> Some (hashContent content) \<and>
    fst (astro_translate net gm dir k file content (hashContent content) aw) = Inr False \<longrightarrow>
      astro_files net gm dir k (file # rest) counters aw
        = astro_files net gm dir k rest counters
            (snd (astro_translate net gm dir k file content (hashContent content) aw)) \<and>
      a_files (snd (astro_translate net gm dir k file content (hashContent content) aw)) = a_files aw \<and>
      translationCache (snd (astro_translate net gm dir k file content (hashContent content) aw))
        = translationCache aw \<and>
      (\<exists>evs err. a_trace (snd (astro_translate net gm dir k file content (hashContent content) aw))
          = a_trace aw @ evs @ [Console_error (Failed_to_translate file err)])) \<and>
   (fst (astro_file net gm dir k file counters aw) = Inl e \<longrightarrow>
      astro_files net gm dir k (file # rest) counters aw
        = (Inl e, snd (astro_file net gm dir k file counters aw))) \<and>
   (fst (astro_translateDirectory net gm dir k aw) = Inl e \<longrightarrow>
      hook_dirs net gm k (dir # dirs) totals aw
        = hook_dirs net gm k dirs totals
            (a_emit [Console_error (Error_translating (cd_name dir))]
               (snd (astro_translateDirectory net gm dir k aw)))) \<and>
   (\<forall>x \<in> set dirs. a_files (snd (hook_dirs net gm k dirs totals aw)) (cd_output x) \<noteq> None)"
proof (intro conjI impI)
  show "process_file net gm outputDir it w
        = emit [Console_error (Failed_to_process (q_file it))]
            (snd (process_file_try net gm outputDir it
                    (emit [Console_log (Translating (q_file it))] w)))"
    if "fst (process_file_try net gm outputDir it (emit [Console_log (Translating (q_file it))] w)) \<noteq> None"
    using that by (rule process_file_failed(1))
  show "files (process_file net gm outputDir it w) = files w"
    if "fst (process_file_try net gm outputDir it (emit [Console_log (Translating (q_file it))] w)) \<noteq> None"
    using that by (rule process_file_failed(2))
  show "\<exists>evs. trace (process_files net gm outputDir queue w) = trace w @ evs \<and>
          (\<forall>x \<in> set queue.
             Console_log (Translating (q_file x)) \<in> set evs \<and>
             (Console_log (Done (q_file x)) \<in> set evs \<or>
              Console_error (Failed_to_process (q_file x)) \<in> set evs))"
    by (rule process_files_trace)
next
  assume a: "stat_isDirectory (a_files aw) (cd_source dir) file = Inr False \<and>
    readFile (a_files aw) (cd_source dir) file = Inr content \<and>
    translationCache aw (hashContent content) = None \<and>
    existing_hash (a_files aw) (cd_output dir) file \<noteq> Some (hashContent content) \<and>
    fst (astro_translate net gm dir k file content (hashContent content) aw) = Inr False"
  let ?t = "astro_translate net gm dir k file content (hashContent content) aw"
  have af: "astro_file net gm dir k file counters aw = (Inr counters, snd ?t)"
    using a astro_file_translate [of aw dir "file" content net gm k counters]
    by (simp add: split_beta)
  show "astro_files net gm dir k (file # rest) counters aw
        = astro_files net gm dir k rest counters (snd ?t)"
    using astro_files_continue [of net gm dir k "file" counters aw counters rest]
    by (simp add: af)
  note fr = astro_translate_frame [of net gm dir k "file" content "hashContent content" aw]
  show "a_files (snd ?t) = a_files aw" using a fr by simp
  show "translationCache (snd ?t) = translationCache aw" using a fr by simp
  show "\<exists>evs err. a_trace (snd ?t) = a_trace aw @ evs @ [Console_error (Failed_to_translate file err)]"
    using a fr by blast
next
  show "astro_files net gm dir k (file # rest) counters aw
        = (Inl e, snd (astro_file net gm dir k file counters aw))"
    if "fst (astro_file net gm dir k file counters aw) = Inl e"
    using that by (rule astro_files_abort)
  show "hook_dirs net gm k (dir # dirs) totals aw
        = hook_dirs net gm k dirs totals
            (a_emit [Console_error (Error_translating (cd_name dir))]
               (snd (astro_translateDirectory net gm dir k aw)))"
    if "fst (astro_translateDirectory net gm dir k aw) = Inl e"
    using that by (rule hook_dirs_error)
  show "\<forall>x \<in> set dirs. a_files (snd (hook_dirs net gm k dirs totals aw)) (cd_output x) \<noteq> None"
    using hook_dirs_started by blast
qed

lemma demo_astro_fields:
  "a_files demo_astro = files demo_world" "translationCache demo_astro = Map.empty"
  "keyIndex demo_astro = 0" "a_trace demo_astro = []"
  "cd_source demo_dir = js ''src''" "cd_output demo_dir = js ''out''"
  by (simp_all add: demo_astro_def demo_dir_def)

lemma demo_astro_source:
  "stat_isDirectory (a_files demo_astro) (cd_source demo_dir) (js ''a.md'') = Inr False"
  "readFile (a_files demo_astro) (cd_source demo_dir) (js ''a.md'') = Inr []"
  "existing_hash (a_files demo_astro) (cd_output demo_dir) (js ''a.md'') \<noteq> Some (hashContent [])"
  by (simp_all add: demo_astro_fields stat_isDirectory_def readFile_def existing_hash_def demo_files)

lemma demo_astro_fails:
  "fst (astro_translate down plain_matter demo_dir (js ''k1'') (js ''a.md'') []
          (hashContent []) demo_astro) = Inr False"
proof -
  have k: "getNextApiKey (js ''k1'') 0 = (js ''k1'', 1)"
    by (simp add: getNextApiKey_def split_keys_def trim_def is_space_def js_def)
  have k1: "js ''k1'' \<noteq> []" by (simp add: js_def)
  have tm: "fst (translateMarkdown down (JStr []) (js ''k1'')
                   (a_emit [Console_log (Translating (js ''a.md''))] demo_astro)) = Failure Thrown"
    using k1 by (simp add: translateMarkdown_def a_emit_simps demo_astro_fields k down_def Let_def)
  show ?thesis
    using tm by (simp add: astro_translate_def plain_matter_def split_beta)
qed

lemma demo_astro_throws:
  "astro_file down failing_matter demo_dir (js ''k1'') (js ''a.md'') (0, 0) demo_astro
     = (Inl ParseError, demo_astro)"
  using demo_astro_source
  by (simp add: astro_file_def Let_def demo_astro_fields astro_translate_def failing_matter_def)

lemma md_names: "is_markdown (js ''a.md'')" "is_markdown (js ''b.md'')"
  by (simp_all add: is_markdown_def endsWith_def js_def)

lemma demo_astro_directory_throws:
  "fst (astro_translateDirectory down failing_matter demo_dir (js ''k1'') demo_astro) = Inl ParseError"
proof -
  have mk: "mkdir (a_files demo_astro) (cd_output demo_dir) = a_files demo_astro"
    by (simp add: mkdir_def demo_astro_fields demo_files)
  have w0: "demo_astro\<lparr>a_files := a_files demo_astro\<rparr> = demo_astro" by simp
  have rd: "readdir (a_files demo_astro) (cd_source demo_dir) = Inr [js ''a.md'']"
    by (simp add: readdir_def demo_astro_fields demo_files)
  show ?thesis
    by (simp add: astro_translateDirectory_def Let_def mk w0 rd md_names demo_astro_throws)
qed

lemma demo_script_throws:
  "process_file_try down failing_matter (js ''out'') demo_item
     (emit [Console_log (Translating (q_file demo_item))] demo_world)
     = (Some ParseError, emit [Console_log (Translating (q_file demo_item))] demo_world)"
  by (simp add: process_file_try_def failing_matter_def)

theorem failures_do_not_abort_witness:
  "fst (process_file_try down failing_matter (js ''out'') demo_item
          (emit [Console_log (Translating (q_file demo_item))] demo_world)) \<noteq> None \<and>
   files (process_file down failing_matter (js ''out'') demo_item demo_world) = files demo_world \<and>
   demo_item \<in> set [demo_item] \<and>
   (\<exists>evs. trace (process_files down failing_matter (js ''out'') [demo_item] demo_world)
            = trace demo_world @ evs \<and>
          Console_log (Translating (q_file demo_item)) \<in> set evs) \<and>
   fst (astro_translate down plain_matter demo_dir (js ''k1'') (js ''a.md'') []
          (hashContent []) demo_astro) = Inr False \<and>
   astro_files down plain_matter demo_dir (js ''k1'') [js ''a.md'', js ''b.md''] (0, 0) demo_astro
     = astro_files down plain_matter demo_dir (js ''k1'') [js ''b.md''] (0, 0)
         (snd (astro_translate down plain_matter demo_dir (js ''k1'') (js ''a.md'') []
                 (hashContent []) demo_astro)) \<and>
   fst (astro_file down failing_matter demo_dir (js ''k1'') (js ''a.md'') (0, 0) demo_astro)
     = Inl ParseError \<and>
   astro_files down failing_matter demo_dir (js ''k1'') [js ''a.md'', js ''b.md''] (0, 0) demo_astro
     = (Inl ParseError,
        snd (astro_file down failing_matter demo_dir (js ''k1'') (js ''a.md'') (0, 0) demo_astro)) \<and>
   fst (astro_translateDirectory down failing_matter demo_dir (js ''k1'') demo_astro) = Inl ParseError \<and>
   hook_dirs down failing_matter (js ''k1'') [demo_dir, demo_dir] (0, 0) demo_astro
     = hook_dirs down failing_matter (js ''k1'') [demo_dir] (0, 0)
         (a_emit [Console_error (Error_translating (cd_name demo_dir))]
            (snd (astro_translateDirectory down failing_matter demo_dir (js ''k1'') demo_astro))) \<and>
   demo_dir \<in> set [demo_dir] \<and>
   a_files (snd (hook_dirs down failing_matter (js ''k1'') [demo_dir] (0, 0) demo_astro))
     (cd_output demo_dir) \<noteq> None"
proof -
  have h1: "fst (process_file_try down failing_matter (js ''out'') demo_item
          (emit [Console_log (Translating (q_file demo_item))] demo_world)) \<noteq> None"
    by (simp add: demo_script_throws)
  have c1: "files (process_file down failing_matter (js ''out'') demo_item demo_world) = files demo_world"
    using failures_do_not_abort [of down failing_matter "js ''out''" demo_item demo_world] h1 by blast
  have h2: "demo_item \<in> set [demo_item]" by simp
  obtain evs where
    e1: "trace (process_files down failing_matter (js ''out'') [demo_item] demo_world)
            = trace demo_world @ evs" and
    e2: "\<forall>x \<in> set [demo_item]. Console_log (Translating (q_file x)) \<in> set evs \<and>
             (Console_log (Done (q_file x)) \<in> set evs \<or>
              Console_error (Failed_to_process (q_file x)) \<in> set evs)"
    using failures_do_not_abort [of down failing_matter "js ''out''" demo_item demo_world "[demo_item]"]
    by blast
  have c2: "\<exists>evs. trace (process_files down failing_matter (js ''out'') [demo_item] demo_world)
            = trace demo_world @ evs \<and>
          Console_log (Translating (q_file demo_item)) \<in> set evs"
    using e1 e2 h2 by blast
  have h3: "fst (astro_translate down plain_matter demo_dir (js ''k1'') (js ''a.md'') []
          (hashContent []) demo_astro) = Inr False"
    by (rule demo_astro_fails)
  have c3: "astro_files down plain_matter demo_dir (js ''k1'') [js ''a.md'', js ''b.md''] (0, 0) demo_astro
     = astro_files down plain_matter demo_dir (js ''k1'') [js ''b.md''] (0, 0)
         (snd (astro_translate down plain_matter demo_dir (js ''k1'') (js ''a.md'') []
                 (hashContent []) demo_astro))"
    using failures_do_not_abort [of down plain_matter _ _ _ _ demo_astro demo_dir "js ''a.md''" "[]"
            "js ''k1''" "[js ''b.md'']" "(0, 0)"]
          demo_astro_source h3 demo_astro_fields(2)
    by simp
  have h4: "fst (astro_file down failing_matter demo_dir (js ''k1'') (js ''a.md'') (0, 0) demo_astro)
     = Inl ParseError"
    by (simp add: demo_astro_throws)
  have c4: "astro_files down failing_matter demo_dir (js ''k1'') [js ''a.md'', js ''b.md''] (0, 0) demo_astro
     = (Inl ParseError,
        snd (astro_file down failing_matter demo_dir (js ''k1'') (js ''a.md'') (0, 0) demo_astro))"
    using failures_do_not_abort [of down failing_matter _ _ _ _ demo_astro demo_dir "js ''a.md''" _
            "js ''k1''" "[js ''b.md'']" "(0, 0)" ParseError]
          h4
    by blast
  have h5: "fst (astro_translateDirectory down failing_matter demo_dir (js ''k1'') demo_astro) = Inl ParseError"
    by (rule demo_astro_directory_throws)
  have c5: "hook_dirs down failing_matter (js ''k1'') [demo_dir, demo_dir] (0, 0) demo_astro
     = hook_dirs down failing_matter (js ''k1'') [demo_dir] (0, 0)
         (a_emit [Console_error (Error_translating (cd_name demo_dir))]
            (snd (astro_translateDirectory down failing_matter demo_dir (js ''k1'') demo_astro)))"
    using failures_do_not_abort [of down failing_matter _ _ _ _ demo_astro demo_dir _ _
            "js ''k1''" _ _ ParseError "[demo_dir]" "(0, 0)"]
          h5
    by blast
  have h6: "demo_dir \<in> set [demo_dir]" by simp
  have c6: "a_files (snd (hook_dirs down failing_matter (js ''k1'') [demo_dir] (0, 0) demo_astro))
     (cd_output demo_dir) \<noteq> None"
    using failures_do_not_abort [of down failing_matter _ _ _ _ demo_astro _ _ _
            "js ''k1''" _ _ _ "[demo_dir]" "(0, 0)"]
          h6
    by blast
  show ?thesis
    using h1 c1 h2 c2 h3 c3 h4 c4 h5 c5 h6 c6 by blast
qed

text \<open>
  The source directory holds \<open>a.md\<close>, on which gray-matter throws, and \<open>b.md\<close>, which it
  reads. The Astro \<open>translateDirectory\<close> ends with the exception of \<open>a.md\<close>: nothing was
  requested or logged for \<open>b.md\<close>, and \<open>b.md\<close> has no output.
\<close>

theorem astro_exception_counterexample:
  "is_markdown (js ''b.md'') \<and>
   readFile two_files (js ''src'') (js ''b.md'') = Inr (js ''ok'') \<and>
   gm_parse strict_matter (js ''ok'') = Inr ([], js ''ok'') \<and>
   fst (astro_translateDirectory answers_X strict_matter demo_dir (js ''k1'')
          (demo_astro\<lparr>a_files := two_files\<rparr>)) = Inl ParseError \<and>
   a_trace (snd (astro_translateDirectory answers_X strict_matter demo_dir (js ''k1'')
                   (demo_astro\<lparr>a_files := two_files\<rparr>))) = [] \<and>
   readFile (a_files (snd (astro_translateDirectory answers_X strict_matter demo_dir (js ''k1'')
                             (demo_astro\<lparr>a_files := two_files\<rparr>))))
     (js ''out'') (js ''b.md'') = Inl FsError"
proof -
  let ?w = "demo_astro\<lparr>a_files := two_files\<rparr>"
  have s: "two_files (js ''src'') = Some [(js ''a.md'', File (js ''bad'')), (js ''b.md'', File (js ''ok''))]"
    by (simp add: two_files_def)
  have o: "two_files (js ''out'') = Some []"
    using src_ne_out by (simp add: two_files_def)
  have ab: "js ''a.md'' \<noteq> js ''b.md''" "js ''ok'' \<noteq> js ''bad''" by (simp_all add: js_def)
  have f1: "is_markdown (js ''b.md'')" by (rule md_names)
  have f2: "readFile two_files (js ''src'') (js ''b.md'') = Inr (js ''ok'')"
    using ab by (simp add: readFile_def s)
  have f3: "gm_parse strict_matter (js ''ok'') = Inr ([], js ''ok'')"
    using ab by (simp add: strict_matter_def)
  have mk: "mkdir two_files (js ''out'') = two_files" by (simp add: mkdir_def o)
  have w0: "?w\<lparr>a_files := two_files\<rparr> = ?w" by simp
  have rd: "readdir two_files (js ''src'') = Inr [js ''a.md'', js ''b.md'']"
    by (simp add: readdir_def s)
  have st: "stat_isDirectory two_files (js ''src'') (js ''a.md'') = Inr False"
    by (simp add: stat_isDirectory_def s)
  have ra: "readFile two_files (js ''src'') (js ''a.md'') = Inr (js ''bad'')"
    by (simp add: readFile_def s)
  have eh: "existing_hash two_files (js ''out'') (js ''a.md'') = None"
    by (simp add: existing_hash_def readFile_def o)
  have af: "astro_file answers_X strict_matter demo_dir (js ''k1'') (js ''a.md'') (0, 0) ?w
              = (Inl ParseError, ?w)"
    by (simp add: astro_file_def Let_def demo_astro_fields st ra eh astro_translate_def
          strict_matter_def demo_astro_def)
  have td: "astro_translateDirectory answers_X strict_matter demo_dir (js ''k1'') ?w
              = (Inl ParseError, ?w)"
    by (simp add: astro_translateDirectory_def Let_def demo_astro_fields mk rd md_names af)
  have f6: "readFile two_files (js ''out'') (js ''b.md'') = Inl FsError"
    by (simp add: readFile_def o)
  show ?thesis
    using f1 f2 f3 f6 by (simp add: td demo_astro_fields)
qed

end
